(* ===== verification/Prelude.thy ===== *)
theory Prelude
  imports Main "HOL-Library.Word"
begin

unbundle bit_operations_syntax

text \<open>
  Shared vocabulary of the development.

  The driver is a C program that reads and writes device registers, follows pointers and
  indexes arrays. A piece of it that can stop early is a \<open>prog\<close>: a function from the state
  to either a \<open>fault\<close> (the C code would be undefined there, would block, or would never come
  back) or a result together with the new state. The combinators \<open>ret\<close>, \<open>bnd\<close>, \<open>thn\<close>,
  \<open>peek\<close>, \<open>modify\<close> and \<open>throw\<close> sequence such pieces the way the C statements do.

  Two judgements are used about programs: \<open>hoare P m Q\<close> (every completed run from a state
  in \<open>P\<close> ends in \<open>Q\<close>) and \<open>keeps f m\<close> (no completed run changes the observation \<open>f\<close>
  of the state); \<open>safe P m\<close> says that a run from \<open>P\<close> has no fault except that it may
  still wait for the hardware.
\<close>

type_synonym u8 = "8 word"
type_synonym u16 = "16 word"
type_synonym u32 = "32 word"
type_synonym u64 = "64 word"

named_theorems keeps_intros "a program leaves an observation of the state alone"
named_theorems run_simps "executing the program combinators"

section \<open>Programs that can fault\<close>

datatype fault =
    Waiting        \<comment> \<open>a polling loop has used up the register values the hardware has delivered\<close>
  | Null_deref     \<comment> \<open>a NULL pointer is dereferenced\<close>
  | Out_of_bounds  \<comment> \<open>an array is indexed outside its bounds\<close>
  | Div_by_zero    \<comment> \<open>an integer division by zero\<close>
  | Bad_shift      \<comment> \<open>a shift by at least the width of the operand\<close>
  | Diverges       \<comment> \<open>a loop over a cyclic list never ends\<close>
  | Hang           \<comment> \<open>an endless loop the source writes on purpose\<close>
  | Deadlock       \<comment> \<open>a spinlock is taken twice\<close>
  | Bad_unlock     \<comment> \<open>a spinlock that is not held is released\<close>

type_synonym ('s, 'a) prog = "'s \<Rightarrow> fault + 'a \<times> 's"

definition ret :: "'a \<Rightarrow> ('s, 'a) prog" where
  "ret x = (\<lambda>w. Inr (x, w))"

definition throw :: "fault \<Rightarrow> ('s, 'a) prog" where
  "throw f = (\<lambda>w. Inl f)"

definition bnd :: "('s, 'a) prog \<Rightarrow> ('a \<Rightarrow> ('s, 'b) prog) \<Rightarrow> ('s, 'b) prog" where
  "bnd m f = (\<lambda>w. case m w of Inl e \<Rightarrow> Inl e | Inr (x, w') \<Rightarrow> f x w')"

definition thn :: "('s, 'a) prog \<Rightarrow> ('s, 'b) prog \<Rightarrow> ('s, 'b) prog" where
  "thn m n = bnd m (\<lambda>_. n)"

definition peek :: "('s \<Rightarrow> ('s, 'a) prog) \<Rightarrow> ('s, 'a) prog" where
  "peek f = (\<lambda>w. f w w)"

definition modify :: "('s \<Rightarrow> 's) \<Rightarrow> ('s, unit) prog" where
  "modify f = (\<lambda>w. Inr ((), f w))"

definition when_do :: "bool \<Rightarrow> ('s, unit) prog \<Rightarrow> ('s, unit) prog" where
  "when_do b m = (if b then m else ret ())"

fun seqs :: "('s, unit) prog list \<Rightarrow> ('s, unit) prog" where
  "seqs [] = ret ()"
| "seqs (m # ms) = thn m (seqs ms)"

text \<open>A C array is a list; reading or writing outside it is a fault.\<close>

definition arr_get :: "'a list \<Rightarrow> nat \<Rightarrow> ('s, 'a) prog" where
  "arr_get xs i = (if i < length xs then ret (xs ! i) else throw Out_of_bounds)"

definition arr_ok :: "'a list \<Rightarrow> nat \<Rightarrow> ('s, unit) prog" where
  "arr_ok xs i = (if i < length xs then ret () else throw Out_of_bounds)"

definition lift :: "fault + 'a \<Rightarrow> ('s, 'a) prog" where
  "lift r = (\<lambda>w. case r of Inl f \<Rightarrow> Inl f | Inr x \<Rightarrow> Inr (x, w))"

definition deref :: "'p option \<Rightarrow> ('p \<Rightarrow> ('s, 'a) prog) \<Rightarrow> ('s, 'a) prog" where
  "deref p f = (case p of None \<Rightarrow> throw Null_deref | Some c \<Rightarrow> f c)"

lemma ret_run [run_simps]: "ret x w = Inr (x, w)"
  by (simp add: ret_def)

lemma throw_run [run_simps]: "throw f w = Inl f"
  by (simp add: throw_def)

lemma modify_run [run_simps]: "modify f w = Inr ((), f w)"
  by (simp add: modify_def)

lemma peek_run [run_simps]: "peek f w = f w w"
  by (simp add: peek_def)

lemma bnd_run [run_simps]:
  "bnd m f w = (case m w of Inl e \<Rightarrow> Inl e | Inr (x, w') \<Rightarrow> f x w')"
  by (simp add: bnd_def)

lemma thn_run [run_simps]:
  "thn m n w = (case m w of Inl e \<Rightarrow> Inl e | Inr (x, w') \<Rightarrow> n w')"
  by (simp add: thn_def bnd_def)

lemma bnd_Inr [simp]: "m w = Inr (x, w') \<Longrightarrow> bnd m f w = f x w'"
  by (simp add: bnd_def)

lemma bnd_Inl [simp]: "m w = Inl e \<Longrightarrow> bnd m f w = Inl e"
  by (simp add: bnd_def)

lemma thn_Inr [simp]: "m w = Inr (x, w') \<Longrightarrow> thn m n w = n w'"
  by (simp add: thn_def)

lemma thn_Inl [simp]: "m w = Inl e \<Longrightarrow> thn m n w = Inl e"
  by (simp add: thn_def)

lemma when_do_run [run_simps]: "when_do b m w = (if b then m w else Inr ((), w))"
  by (simp add: when_do_def ret_run)

lemma arr_get_run [run_simps]:
  "arr_get xs i w = (if i < length xs then Inr (xs ! i, w) else Inl Out_of_bounds)"
  by (simp add: arr_get_def ret_run throw_run)

lemma arr_ok_run [run_simps]:
  "arr_ok xs i w = (if i < length xs then Inr ((), w) else Inl Out_of_bounds)"
  by (simp add: arr_ok_def ret_run throw_run)

lemma lift_run [run_simps]: "lift r w = (case r of Inl f \<Rightarrow> Inl f | Inr x \<Rightarrow> Inr (x, w))"
  by (simp add: lift_def)

lemma deref_run [run_simps]:
  "deref p f w = (case p of None \<Rightarrow> Inl Null_deref | Some c \<Rightarrow> f c w)"
  by (simp add: deref_def throw_run split: option.splits)

lemma deref_Some [simp]: "deref (Some c) f = f c"
  by (simp add: deref_def)

lemma bnd_InrE:
  assumes "bnd m f w = Inr (y, w'')"
  obtains x w' where "m w = Inr (x, w')" and "f x w' = Inr (y, w'')"
  using assms by (auto simp: bnd_def split: sum.splits prod.splits)

lemma thn_InrE:
  assumes "thn m n w = Inr (y, w'')"
  obtains x w' where "m w = Inr (x, w')" and "n w' = Inr (y, w'')"
  using assms by (auto simp: thn_def elim: bnd_InrE)

lemma bnd_thn_ret: "bnd (thn m (ret x)) f = thn m (f x)"
  by (rule ext) (simp add: bnd_def thn_def ret_def split: sum.splits prod.splits)

lemma thn_assoc: "thn (thn m n) p = thn m (thn n p)"
  by (rule ext) (simp add: thn_def bnd_def split: sum.splits prod.splits)

lemma seqs_append: "seqs (ms @ ns) = thn (seqs ms) (seqs ns)"
proof (induction ms)
  case Nil
  show ?case by (rule ext) (simp add: run_simps)
qed (simp add: thn_assoc)

section \<open>Judgements about programs\<close>

definition hoare :: "('s \<Rightarrow> bool) \<Rightarrow> ('s, 'a) prog \<Rightarrow> ('a \<Rightarrow> 's \<Rightarrow> bool) \<Rightarrow> bool" where
  "hoare P m Q \<longleftrightarrow> (\<forall>w x w'. P w \<longrightarrow> m w = Inr (x, w') \<longrightarrow> Q x w')"

definition keeps :: "('s \<Rightarrow> 'o) \<Rightarrow> ('s, 'a) prog \<Rightarrow> bool" where
  "keeps f m \<longleftrightarrow> (\<forall>w x w'. m w = Inr (x, w') \<longrightarrow> f w' = f w)"

definition safe :: "('s \<Rightarrow> bool) \<Rightarrow> ('s, 'a) prog \<Rightarrow> bool" where
  "safe P m \<longleftrightarrow> (\<forall>w e. P w \<longrightarrow> m w = Inl e \<longrightarrow> e = Waiting)"

lemma hoareI: "(\<And>w x w'. P w \<Longrightarrow> m w = Inr (x, w') \<Longrightarrow> Q x w') \<Longrightarrow> hoare P m Q"
  by (simp add: hoare_def)

lemma hoareD: "hoare P m Q \<Longrightarrow> m w = Inr (x, w') \<Longrightarrow> P w \<Longrightarrow> Q x w'"
  by (auto simp: hoare_def)

lemma hoare_bnd:
  "hoare P m R \<Longrightarrow> (\<And>x. hoare (R x) (f x) Q) \<Longrightarrow> hoare P (bnd m f) Q"
  unfolding hoare_def by (metis bnd_InrE)

lemma hoare_thn: "hoare P m (\<lambda>_. R) \<Longrightarrow> hoare R n Q \<Longrightarrow> hoare P (thn m n) Q"
  unfolding hoare_def by (metis thn_InrE)

lemma hoare_pre: "hoare P m Q \<Longrightarrow> (\<And>w. P' w \<Longrightarrow> P w) \<Longrightarrow> hoare P' m Q"
  by (auto simp: hoare_def)

lemma hoare_post: "hoare P m Q \<Longrightarrow> (\<And>x w. Q x w \<Longrightarrow> Q' x w) \<Longrightarrow> hoare P m Q'"
  by (auto simp: hoare_def)

lemma hoare_peek: "(\<And>w0. hoare (\<lambda>w. P w \<and> w = w0) (f w0) Q) \<Longrightarrow> hoare P (peek f) Q"
  by (auto simp: hoare_def peek_run)

lemma hoare_modify: "(\<And>w. P w \<Longrightarrow> Q () (f w)) \<Longrightarrow> hoare P (modify f) Q"
  by (auto simp: hoare_def modify_run)

lemma hoare_ret: "(\<And>w. P w \<Longrightarrow> Q x w) \<Longrightarrow> hoare P (ret x) Q"
  by (auto simp: hoare_def ret_run)

lemma hoare_throw: "hoare P (throw f) Q"
  by (auto simp: hoare_def throw_run)

lemma hoare_if: "(b \<Longrightarrow> hoare P m Q) \<Longrightarrow> (\<not> b \<Longrightarrow> hoare P n Q) \<Longrightarrow> hoare P (if b then m else n) Q"
  by simp

lemma hoare_fact: "(b \<Longrightarrow> hoare P m Q) \<Longrightarrow> hoare (\<lambda>w. P w \<and> b) m Q"
  by (auto simp: hoare_def)

lemma hoare_conj:
  "hoare P m Q \<Longrightarrow> hoare P' m Q' \<Longrightarrow> hoare (\<lambda>w. P w \<and> P' w) m (\<lambda>x w. Q x w \<and> Q' x w)"
  by (auto simp: hoare_def)

lemma keepsI: "(\<And>w x w'. m w = Inr (x, w') \<Longrightarrow> f w' = f w) \<Longrightarrow> keeps f m"
  by (simp add: keeps_def)

lemma keepsD: "keeps f m \<Longrightarrow> m w = Inr (x, w') \<Longrightarrow> f w' = f w"
  by (simp add: keeps_def)

lemma keeps_hoare: "keeps f m \<Longrightarrow> hoare (\<lambda>w. P (f w)) m (\<lambda>_ w. P (f w))"
  by (auto simp: keeps_def hoare_def)

lemma keeps_ret [keeps_intros]: "keeps f (ret x)"
  by (simp add: keeps_def ret_run)

lemma keeps_throw [keeps_intros]: "keeps f (throw e)"
  by (simp add: keeps_def throw_run)

lemma keeps_bnd [keeps_intros]:
  assumes "keeps f m" and "\<And>x. keeps f (g x)"
  shows "keeps f (bnd m g)"
  using assms unfolding keeps_def by (metis bnd_InrE)

lemma keeps_thn [keeps_intros]:
  assumes "keeps f m" and "keeps f n"
  shows "keeps f (thn m n)"
  using assms unfolding keeps_def by (metis thn_InrE)

lemma keeps_peek [keeps_intros]: "(\<And>w. keeps f (g w)) \<Longrightarrow> keeps f (peek g)"
  by (auto simp: keeps_def peek_run)

lemma keeps_modify [keeps_intros]: "(\<And>w. f (g w) = f w) \<Longrightarrow> keeps f (modify g)"
  by (simp add: keeps_def modify_run)

lemma keeps_if [keeps_intros]:
  "(b \<Longrightarrow> keeps f m) \<Longrightarrow> (\<not> b \<Longrightarrow> keeps f n) \<Longrightarrow> keeps f (if b then m else n)"
  by simp

lemma keeps_when [keeps_intros]: "(b \<Longrightarrow> keeps f m) \<Longrightarrow> keeps f (when_do b m)"
  by (simp add: when_do_def keeps_ret)

lemma keeps_seqs [keeps_intros]: "(\<And>m. m \<in> set ms \<Longrightarrow> keeps f m) \<Longrightarrow> keeps f (seqs ms)"
  by (induction ms) (simp_all add: keeps_ret keeps_thn)

lemma keeps_arr_get [keeps_intros]: "keeps f (arr_get xs i)"
  by (simp add: arr_get_def keeps_ret keeps_throw)

lemma keeps_arr_ok [keeps_intros]: "keeps f (arr_ok xs i)"
  by (simp add: arr_ok_def keeps_ret keeps_throw)

lemma keeps_lift [keeps_intros]: "keeps f (lift r)"
  by (auto simp: keeps_def lift_def split: sum.splits)

lemma keeps_deref [keeps_intros]: "(\<And>c. p = Some c \<Longrightarrow> keeps f (g c)) \<Longrightarrow> keeps f (deref p g)"
  by (cases p) (auto simp: deref_def keeps_throw)

lemma keeps_option [keeps_intros]:
  "(p = None \<Longrightarrow> keeps f m) \<Longrightarrow> (\<And>c. p = Some c \<Longrightarrow> keeps f (g c)) \<Longrightarrow>
   keeps f (case p of None \<Rightarrow> m | Some c \<Rightarrow> g c)"
  by (cases p) auto

lemma keeps_prod [keeps_intros]:
  "(\<And>a b. p = (a, b) \<Longrightarrow> keeps f (g a b)) \<Longrightarrow> keeps f (case p of (a, b) \<Rightarrow> g a b)"
  by (cases p) auto

lemma keeps_comp: "keeps f m \<Longrightarrow> keeps (\<lambda>w. g (f w)) m"
  by (simp add: keeps_def)

section \<open>Words\<close>

definition bit_on :: "'a::len word \<Rightarrow> 'a word \<Rightarrow> bool" where
  "bit_on x m \<longleftrightarrow> x AND m \<noteq> 0"  \<comment> \<open>C's truth value of \<open>x & m\<close>\<close>

lemma and_or_zero_iff: "(x OR y) AND m = 0 \<longleftrightarrow> x AND m = 0 \<and> y AND m = 0" for x :: "'a::len word"
proof -
  have "(x OR y) AND m = (x AND m) OR (y AND m)"
    by (rule bit.conj_disj_distrib2)
  moreover have "a OR b = 0 \<longleftrightarrow> a = 0 \<and> b = 0" for a b :: "'a word"
    by (auto simp: bit_eq_iff bit_simps)
  ultimately show ?thesis by simp
qed

lemma bit_on_or [simp]: "bit_on (x OR y) m \<longleftrightarrow> bit_on x m \<or> bit_on y m"
  by (auto simp: bit_on_def and_or_zero_iff)

lemma and_zero_sub: "x AND m = 0 \<Longrightarrow> k AND m = k \<Longrightarrow> x AND k = 0" for x m k :: "'a::len word"
  by (metis and.left_commute and_zero_eq and.commute)

lemma and_zero_id: "x AND m = 0 \<Longrightarrow> k OR m = -1 \<Longrightarrow> x AND k = x" for x m k :: "'a::len word"
  by (metis bit.conj_disj_distrib word_and_max word_log_esimps(3))

lemma and_or3: "(x OR y OR z) AND k = (x AND k) OR (y AND k) OR (z AND k)" for x y z k :: "'a::len word"
  by (simp add: bit.conj_disj_distrib2)

lemma unat_u8_u32 [simp]: "unat (ucast (x :: u32) :: u8) = unat x mod 256"
  by (simp add: unsigned_ucast_eq take_bit_eq_mod unat_mod)

lemma unat_u32_u8 [simp]: "unat (ucast (x :: u8) :: u32) = unat x"
proof -
  have "unat x < 2 ^ LENGTH(8)" by (rule unsigned_less)
  then show ?thesis by (simp add: unsigned_ucast_eq take_bit_eq_mod unat_mod)
qed

lemma word_and3_mod: "x AND 3 = 0 \<Longrightarrow> unat x mod 4 = 0" for x :: u32
proof -
  assume "x AND 3 = 0"
  then have "x AND mask 2 = 0" by (simp add: mask_eq_decr_exp)
  then have "take_bit 2 x = 0" by (simp add: take_bit_eq_mask)
  then have "unat x mod 2 ^ 2 = 0"
    by (metis unat_0 unsigned_take_bit_eq take_bit_eq_mod)
  then show ?thesis by simp
qed

lemma unat_div_u32: "unat (p div 4) = unat p div 4" "unat (p div 2) = unat p div 2" for p :: u32
  by (simp_all add: unat_div)

lemma and3_unat: "unat (x AND 3) = unat x mod 4" for x :: u32
proof -
  have "x AND 3 = take_bit 2 x" by (simp add: take_bit_eq_mask mask_eq_decr_exp)
  then show ?thesis by (simp add: unsigned_take_bit_eq take_bit_eq_mod unat_mod)
qed

lemma and3_eq: "x AND 3 = k \<longleftrightarrow> unat x mod 4 = unat k" for x k :: u32
  by (simp add: word_unat_eq_iff and3_unat)

end
