(* ===== verification/WdDefs.thy ===== *)
theory WdDefs
  imports Prelude
begin

text \<open>
  The constants of \<^verbatim>\<open>wd33c93.h\<close> and \<^verbatim>\<open>a3000.h\<close>, under their names in the source, and
  those values of the SCSI-2 standard that the driver takes from the kernel's SCSI headers
  (message codes, the REQUEST SENSE opcode, the GOOD status). Numeric macros are abbreviations, so
  the simplifier sees the numbers; macros that only ever name the values of one variable
  (\<open>S_\<close>, \<open>D_\<close>, \<open>SS_\<close>) are datatypes.
\<close>

section \<open>Constants of the driver\<close>

subsection \<open>Chip registers and commands (\<^verbatim>\<open>wd33c93.h\<close>)\<close>
abbreviation (input) WD_OWN_ID :: u8 where "WD_OWN_ID \<equiv> 0x00"
abbreviation (input) WD_CONTROL :: u8 where "WD_CONTROL \<equiv> 0x01"
abbreviation (input) WD_TIMEOUT_PERIOD :: u8 where "WD_TIMEOUT_PERIOD \<equiv> 0x02"
abbreviation (input) WD_CDB_1 :: u8 where "WD_CDB_1 \<equiv> 0x03"
abbreviation (input) WD_CDB_2 :: u8 where "WD_CDB_2 \<equiv> 0x04"
abbreviation (input) WD_CDB_3 :: u8 where "WD_CDB_3 \<equiv> 0x05"
abbreviation (input) WD_CDB_4 :: u8 where "WD_CDB_4 \<equiv> 0x06"
abbreviation (input) WD_CDB_5 :: u8 where "WD_CDB_5 \<equiv> 0x07"
abbreviation (input) WD_CDB_6 :: u8 where "WD_CDB_6 \<equiv> 0x08"
abbreviation (input) WD_CDB_7 :: u8 where "WD_CDB_7 \<equiv> 0x09"
abbreviation (input) WD_CDB_8 :: u8 where "WD_CDB_8 \<equiv> 0x0a"
abbreviation (input) WD_CDB_9 :: u8 where "WD_CDB_9 \<equiv> 0x0b"
abbreviation (input) WD_CDB_10 :: u8 where "WD_CDB_10 \<equiv> 0x0c"
abbreviation (input) WD_CDB_11 :: u8 where "WD_CDB_11 \<equiv> 0x0d"
abbreviation (input) WD_CDB_12 :: u8 where "WD_CDB_12 \<equiv> 0x0e"
abbreviation (input) WD_TARGET_LUN :: u8 where "WD_TARGET_LUN \<equiv> 0x0f"
abbreviation (input) WD_COMMAND_PHASE :: u8 where "WD_COMMAND_PHASE \<equiv> 0x10"
abbreviation (input) WD_SYNCHRONOUS_TRANSFER :: u8 where "WD_SYNCHRONOUS_TRANSFER \<equiv> 0x11"
abbreviation (input) WD_TRANSFER_COUNT_MSB :: u8 where "WD_TRANSFER_COUNT_MSB \<equiv> 0x12"
abbreviation (input) WD_TRANSFER_COUNT :: u8 where "WD_TRANSFER_COUNT \<equiv> 0x13"
abbreviation (input) WD_TRANSFER_COUNT_LSB :: u8 where "WD_TRANSFER_COUNT_LSB \<equiv> 0x14"
abbreviation (input) WD_DESTINATION_ID :: u8 where "WD_DESTINATION_ID \<equiv> 0x15"
abbreviation (input) WD_SOURCE_ID :: u8 where "WD_SOURCE_ID \<equiv> 0x16"
abbreviation (input) WD_SCSI_STATUS :: u8 where "WD_SCSI_STATUS \<equiv> 0x17"
abbreviation (input) WD_COMMAND :: u8 where "WD_COMMAND \<equiv> 0x18"
abbreviation (input) WD_DATA :: u8 where "WD_DATA \<equiv> 0x19"
abbreviation (input) WD_QUEUE_TAG :: u8 where "WD_QUEUE_TAG \<equiv> 0x1a"
abbreviation (input) WD_AUXILIARY_STATUS :: u8 where "WD_AUXILIARY_STATUS \<equiv> 0x1f"
abbreviation (input) WD_CMD_RESET :: u8 where "WD_CMD_RESET \<equiv> 0x00"
abbreviation (input) WD_CMD_ABORT :: u8 where "WD_CMD_ABORT \<equiv> 0x01"
abbreviation (input) WD_CMD_ASSERT_ATN :: u8 where "WD_CMD_ASSERT_ATN \<equiv> 0x02"
abbreviation (input) WD_CMD_NEGATE_ACK :: u8 where "WD_CMD_NEGATE_ACK \<equiv> 0x03"
abbreviation (input) WD_CMD_DISCONNECT :: u8 where "WD_CMD_DISCONNECT \<equiv> 0x04"
abbreviation (input) WD_CMD_RESELECT :: u8 where "WD_CMD_RESELECT \<equiv> 0x05"
abbreviation (input) WD_CMD_SEL_ATN :: u8 where "WD_CMD_SEL_ATN \<equiv> 0x06"
abbreviation (input) WD_CMD_SEL :: u8 where "WD_CMD_SEL \<equiv> 0x07"
abbreviation (input) WD_CMD_SEL_ATN_XFER :: u8 where "WD_CMD_SEL_ATN_XFER \<equiv> 0x08"
abbreviation (input) WD_CMD_SEL_XFER :: u8 where "WD_CMD_SEL_XFER \<equiv> 0x09"
abbreviation (input) WD_CMD_RESEL_RECEIVE :: u8 where "WD_CMD_RESEL_RECEIVE \<equiv> 0x0a"
abbreviation (input) WD_CMD_RESEL_SEND :: u8 where "WD_CMD_RESEL_SEND \<equiv> 0x0b"
abbreviation (input) WD_CMD_WAIT_SEL_RECEIVE :: u8 where "WD_CMD_WAIT_SEL_RECEIVE \<equiv> 0x0c"
abbreviation (input) WD_CMD_TRANS_ADDR :: u8 where "WD_CMD_TRANS_ADDR \<equiv> 0x18"
abbreviation (input) WD_CMD_TRANS_INFO :: u8 where "WD_CMD_TRANS_INFO \<equiv> 0x20"
abbreviation (input) WD_CMD_TRANSFER_PAD :: u8 where "WD_CMD_TRANSFER_PAD \<equiv> 0x21"
abbreviation (input) WD_CMD_SBT_MODE :: u8 where "WD_CMD_SBT_MODE \<equiv> 0x80"

subsection \<open>Auxiliary status register\<close>
abbreviation (input) ASR_INT :: u8 where "ASR_INT \<equiv> 0x80"
abbreviation (input) ASR_LCI :: u8 where "ASR_LCI \<equiv> 0x40"
abbreviation (input) ASR_BSY :: u8 where "ASR_BSY \<equiv> 0x20"
abbreviation (input) ASR_CIP :: u8 where "ASR_CIP \<equiv> 0x10"
abbreviation (input) ASR_PE :: u8 where "ASR_PE \<equiv> 0x02"
abbreviation (input) ASR_DBR :: u8 where "ASR_DBR \<equiv> 0x01"

subsection \<open>SCSI bus phases\<close>
abbreviation (input) PHS_DATA_OUT :: u8 where "PHS_DATA_OUT \<equiv> 0x00"
abbreviation (input) PHS_DATA_IN :: u8 where "PHS_DATA_IN \<equiv> 0x01"
abbreviation (input) PHS_COMMAND :: u8 where "PHS_COMMAND \<equiv> 0x02"
abbreviation (input) PHS_STATUS :: u8 where "PHS_STATUS \<equiv> 0x03"
abbreviation (input) PHS_MESS_OUT :: u8 where "PHS_MESS_OUT \<equiv> 0x06"
abbreviation (input) PHS_MESS_IN :: u8 where "PHS_MESS_IN \<equiv> 0x07"

subsection \<open>Command status register\<close>
abbreviation (input) CSR_RESET :: u8 where "CSR_RESET \<equiv> 0x00"
abbreviation (input) CSR_RESET_AF :: u8 where "CSR_RESET_AF \<equiv> 0x01"
abbreviation (input) CSR_RESELECT :: u8 where "CSR_RESELECT \<equiv> 0x10"
abbreviation (input) CSR_SELECT :: u8 where "CSR_SELECT \<equiv> 0x11"
abbreviation (input) CSR_SEL_XFER_DONE :: u8 where "CSR_SEL_XFER_DONE \<equiv> 0x16"
abbreviation (input) CSR_XFER_DONE :: u8 where "CSR_XFER_DONE \<equiv> 0x18"
abbreviation (input) CSR_MSGIN :: u8 where "CSR_MSGIN \<equiv> 0x20"
abbreviation (input) CSR_SDP :: u8 where "CSR_SDP \<equiv> 0x21"
abbreviation (input) CSR_SEL_ABORT :: u8 where "CSR_SEL_ABORT \<equiv> 0x22"
abbreviation (input) CSR_RESEL_ABORT :: u8 where "CSR_RESEL_ABORT \<equiv> 0x25"
abbreviation (input) CSR_RESEL_ABORT_AM :: u8 where "CSR_RESEL_ABORT_AM \<equiv> 0x27"
abbreviation (input) CSR_ABORT :: u8 where "CSR_ABORT \<equiv> 0x28"
abbreviation (input) CSR_INVALID :: u8 where "CSR_INVALID \<equiv> 0x40"
abbreviation (input) CSR_UNEXP_DISC :: u8 where "CSR_UNEXP_DISC \<equiv> 0x41"
abbreviation (input) CSR_TIMEOUT :: u8 where "CSR_TIMEOUT \<equiv> 0x42"
abbreviation (input) CSR_PARITY :: u8 where "CSR_PARITY \<equiv> 0x43"
abbreviation (input) CSR_PARITY_ATN :: u8 where "CSR_PARITY_ATN \<equiv> 0x44"
abbreviation (input) CSR_BAD_STATUS :: u8 where "CSR_BAD_STATUS \<equiv> 0x45"
abbreviation (input) CSR_UNEXP :: u8 where "CSR_UNEXP \<equiv> 0x48"
abbreviation (input) CSR_RESEL :: u8 where "CSR_RESEL \<equiv> 0x80"
abbreviation (input) CSR_RESEL_AM :: u8 where "CSR_RESEL_AM \<equiv> 0x81"
abbreviation (input) CSR_DISC :: u8 where "CSR_DISC \<equiv> 0x85"
abbreviation (input) CSR_SRV_REQ :: u8 where "CSR_SRV_REQ \<equiv> 0x88"

subsection \<open>Own ID register\<close>
abbreviation (input) OWNID_EAF :: u8 where "OWNID_EAF \<equiv> 0x08"
abbreviation (input) OWNID_EHP :: u8 where "OWNID_EHP \<equiv> 0x10"
abbreviation (input) OWNID_RAF :: u8 where "OWNID_RAF \<equiv> 0x20"
abbreviation (input) OWNID_FS_8 :: u8 where "OWNID_FS_8 \<equiv> 0x00"
abbreviation (input) OWNID_FS_12 :: u8 where "OWNID_FS_12 \<equiv> 0x40"
abbreviation (input) OWNID_FS_16 :: u8 where "OWNID_FS_16 \<equiv> 0x80"

subsection \<open>Control register\<close>
abbreviation (input) CTRL_HSP :: u8 where "CTRL_HSP \<equiv> 0x01"
abbreviation (input) CTRL_HA :: u8 where "CTRL_HA \<equiv> 0x02"
abbreviation (input) CTRL_IDI :: u8 where "CTRL_IDI \<equiv> 0x04"
abbreviation (input) CTRL_EDI :: u8 where "CTRL_EDI \<equiv> 0x08"
abbreviation (input) CTRL_HHP :: u8 where "CTRL_HHP \<equiv> 0x10"
abbreviation (input) CTRL_POLLED :: u8 where "CTRL_POLLED \<equiv> 0x00"
abbreviation (input) CTRL_BURST :: u8 where "CTRL_BURST \<equiv> 0x20"
abbreviation (input) CTRL_BUS :: u8 where "CTRL_BUS \<equiv> 0x40"
abbreviation (input) CTRL_DMA :: u8 where "CTRL_DMA \<equiv> 0x80"

subsection \<open>Timeout, synchronous transfer, destination and source ID registers\<close>
abbreviation (input) TIMEOUT_PERIOD_VALUE :: u8 where "TIMEOUT_PERIOD_VALUE \<equiv> 20"
abbreviation (input) STR_FSS :: u8 where "STR_FSS \<equiv> 0x80"
abbreviation (input) DSTID_DPD :: u8 where "DSTID_DPD \<equiv> 0x40"
abbreviation (input) DSTID_SCC :: u8 where "DSTID_SCC \<equiv> 0x80"
abbreviation (input) SRCID_MASK :: u8 where "SRCID_MASK \<equiv> 0x07"
abbreviation (input) SRCID_SIV :: u8 where "SRCID_SIV \<equiv> 0x08"
abbreviation (input) SRCID_DSP :: u8 where "SRCID_DSP \<equiv> 0x20"
abbreviation (input) SRCID_ES :: u8 where "SRCID_ES \<equiv> 0x40"
abbreviation (input) SRCID_ER :: u8 where "SRCID_ER \<equiv> 0x80"

subsection \<open>Transfer directions\<close>
abbreviation (input) DATA_OUT_DIR :: u32 where "DATA_OUT_DIR \<equiv> 0"
abbreviation (input) DATA_IN_DIR :: u32 where "DATA_IN_DIR \<equiv> 1"

subsection \<open>Transfer parameters\<close>
abbreviation (input) ILLEGAL_STATUS_BYTE :: u32 where "ILLEGAL_STATUS_BYTE \<equiv> 0xff"
abbreviation (input) DEFAULT_SX_PER :: u32 where "DEFAULT_SX_PER \<equiv> 376"
abbreviation (input) DEFAULT_SX_OFF :: u32 where "DEFAULT_SX_OFF \<equiv> 0"
abbreviation (input) OPTIMUM_SX_PER :: u32 where "OPTIMUM_SX_PER \<equiv> 252"
abbreviation (input) OPTIMUM_SX_OFF :: u32 where "OPTIMUM_SX_OFF \<equiv> 12"

subsection \<open>Chip kinds\<close>
abbreviation (input) C_WD33C93 :: u8 where "C_WD33C93 \<equiv> 0"
abbreviation (input) C_WD33C93A :: u8 where "C_WD33C93A \<equiv> 1"
abbreviation (input) C_WD33C93B :: u8 where "C_WD33C93B \<equiv> 2"
abbreviation (input) C_UNKNOWN_CHIP :: u8 where "C_UNKNOWN_CHIP \<equiv> 100"

subsection \<open>Level-2 and disconnect policy\<close>
abbreviation (input) L2_NONE :: u8 where "L2_NONE \<equiv> 1"
abbreviation (input) L2_SELECT :: u8 where "L2_SELECT \<equiv> 2"
abbreviation (input) L2_BASIC :: u8 where "L2_BASIC \<equiv> 3"
abbreviation (input) L2_DATA :: u8 where "L2_DATA \<equiv> 4"
abbreviation (input) L2_MOST :: u8 where "L2_MOST \<equiv> 5"
abbreviation (input) L2_RESELECT :: u8 where "L2_RESELECT \<equiv> 6"
abbreviation (input) L2_ALL :: u8 where "L2_ALL \<equiv> 7"
abbreviation (input) DIS_NEVER :: u8 where "DIS_NEVER \<equiv> 0"
abbreviation (input) DIS_ADAPTIVE :: u8 where "DIS_ADAPTIVE \<equiv> 1"
abbreviation (input) DIS_ALWAYS :: u8 where "DIS_ALWAYS \<equiv> 2"

subsection \<open>Debug mask\<close>
abbreviation (input) DB_MASK :: u32 where "DB_MASK \<equiv> 0x3f"

subsection \<open>Contents of the proc output\<close>
abbreviation (input) PR_VERSION :: u8 where "PR_VERSION \<equiv> 0x1"
abbreviation (input) PR_INFO :: u8 where "PR_INFO \<equiv> 0x2"
abbreviation (input) PR_STATISTICS :: u8 where "PR_STATISTICS \<equiv> 0x4"
abbreviation (input) PR_CONNECTED :: u8 where "PR_CONNECTED \<equiv> 0x8"
abbreviation (input) PR_INPUTQ :: u8 where "PR_INPUTQ \<equiv> 0x10"
abbreviation (input) PR_DISCQ :: u8 where "PR_DISCQ \<equiv> 0x20"
abbreviation (input) PR_TEST :: u8 where "PR_TEST \<equiv> 0x40"
abbreviation (input) PR_STOP :: u8 where "PR_STOP \<equiv> 0x80"

subsection \<open>DMA alignment (\<^verbatim>\<open>a3000.h\<close>)\<close>
abbreviation (input) A3000_XFER_MASK :: u32 where "A3000_XFER_MASK \<equiv> 0x00000003"

subsection \<open>SDMAC register values\<close>
abbreviation (input) CMD_PER_LUN :: nat where "CMD_PER_LUN \<equiv> 2"
abbreviation (input) CAN_QUEUE :: nat where "CAN_QUEUE \<equiv> 16"
abbreviation (input) DAWR_A3000 :: u16 where "DAWR_A3000 \<equiv> 3"
abbreviation (input) CNTR_TCEN :: u16 where "CNTR_TCEN \<equiv> 0x20"
abbreviation (input) CNTR_PREST :: u16 where "CNTR_PREST \<equiv> 0x10"
abbreviation (input) CNTR_PDMD :: u16 where "CNTR_PDMD \<equiv> 0x8"
abbreviation (input) CNTR_INTEN :: u16 where "CNTR_INTEN \<equiv> 0x4"
abbreviation (input) CNTR_DDIR :: u16 where "CNTR_DDIR \<equiv> 0x2"
abbreviation (input) CNTR_IO_DX :: u16 where "CNTR_IO_DX \<equiv> 0x1"
abbreviation (input) ISTR_INTX :: u16 where "ISTR_INTX \<equiv> 0x100"
abbreviation (input) ISTR_INT_F :: u16 where "ISTR_INT_F \<equiv> 0x80"
abbreviation (input) ISTR_INTS :: u16 where "ISTR_INTS \<equiv> 0x40"
abbreviation (input) ISTR_E_INT :: u16 where "ISTR_E_INT \<equiv> 0x20"
abbreviation (input) ISTR_INT_P :: u16 where "ISTR_INT_P \<equiv> 0x10"
abbreviation (input) ISTR_UE_INT :: u16 where "ISTR_UE_INT \<equiv> 0x8"
abbreviation (input) ISTR_OE_INT :: u16 where "ISTR_OE_INT \<equiv> 0x4"
abbreviation (input) ISTR_FF_FLG :: u16 where "ISTR_FF_FLG \<equiv> 0x2"
abbreviation (input) ISTR_FE_FLG :: u16 where "ISTR_FE_FLG \<equiv> 0x1"

text \<open>The input-clock ranges are the divisor bits of the own-ID register.\<close>

abbreviation (input) WD33C93_FS_8_10 :: u8 where "WD33C93_FS_8_10 \<equiv> OWNID_FS_8"
abbreviation (input) WD33C93_FS_12_15 :: u8 where "WD33C93_FS_12_15 \<equiv> OWNID_FS_12"
abbreviation (input) WD33C93_FS_16_20 :: u8 where "WD33C93_FS_16_20 \<equiv> OWNID_FS_16"

section \<open>Enumerations of the driver\<close>

text \<open>The values of \<^verbatim>\<open>hostdata->state\<close>.\<close>

datatype run_state =
  S_UNCONNECTED | S_SELECTING | S_RUNNING_LEVEL2 | S_CONNECTED | S_PRE_TMP_DISC | S_PRE_CMP_DISC

text \<open>The values of \<^verbatim>\<open>hostdata->dma\<close>.\<close>

datatype dma_state = D_DMA_OFF | D_DMA_RUNNING

text \<open>The values of \<^verbatim>\<open>hostdata->sync_stat[]\<close>, one per target.\<close>

datatype sync_status = SS_UNSET | SS_FIRST | SS_WAITING | SS_SET

section \<open>Values of the SCSI-2 standard\<close>

text \<open>
  These come from the kernel's SCSI headers, which are not part of the repository; the SCSI-2
  standard fixes them.
\<close>

abbreviation (input) REQUEST_SENSE :: u8 where "REQUEST_SENSE \<equiv> 0x03"
abbreviation (input) SAM_STAT_GOOD :: u32 where "SAM_STAT_GOOD \<equiv> 0x00"
abbreviation (input) COMMAND_COMPLETE :: u8 where "COMMAND_COMPLETE \<equiv> 0x00"
abbreviation (input) EXTENDED_MESSAGE :: u8 where "EXTENDED_MESSAGE \<equiv> 0x01"
abbreviation (input) SAVE_POINTERS :: u8 where "SAVE_POINTERS \<equiv> 0x02"
abbreviation (input) RESTORE_POINTERS :: u8 where "RESTORE_POINTERS \<equiv> 0x03"
abbreviation (input) DISCONNECT :: u8 where "DISCONNECT \<equiv> 0x04"
abbreviation (input) MESSAGE_REJECT :: u8 where "MESSAGE_REJECT \<equiv> 0x07"
abbreviation (input) NOP :: u8 where "NOP \<equiv> 0x08"
abbreviation (input) IDENTIFY_BASE :: u8 where "IDENTIFY_BASE \<equiv> 0x80"
abbreviation (input) EXTENDED_SDTR :: u8 where "EXTENDED_SDTR \<equiv> 0x01"
abbreviation (input) EXTENDED_WDTR :: u8 where "EXTENDED_WDTR \<equiv> 0x03"

end
