(* ===== verification/WdTypes.thy ===== *)
theory WdTypes
  imports WdDefs
begin

text \<open>
  The data of the driver: \<^verbatim>\<open>struct WD33C93_hostdata\<close> of \<^verbatim>\<open>wd33c93.h\<close>, the parts of the
  kernel's \<^verbatim>\<open>struct scsi_cmnd\<close> and \<^verbatim>\<open>struct scsi_device\<close> the driver works on, and the
  world it runs in. Commands and devices live in a store and are referred to by pointer, so
  that the queues are the linked lists the code builds through \<^verbatim>\<open>host_scribble\<close> and two
  commands can share a device.
\<close>

type_synonym cptr = nat   \<comment> \<open>a non-NULL pointer to a command; \<open>cptr option\<close> may be NULL\<close>
type_synonym dptr = nat   \<comment> \<open>a pointer to a device\<close>

section \<open>Commands and devices\<close>

datatype data_direction = DMA_BIDIRECTIONAL | DMA_TO_DEVICE | DMA_FROM_DEVICE | DMA_NONE

record scsi_device =
  dev_id :: u32
  dev_lun :: u64
  dev_type :: u8
  dev_disconnect :: bool

text \<open>
  The scatter-gather list is the list of its entries (address and length);
  \<open>SCp_buffer\<close> is the index of the current entry, \<open>None\<close> for NULL.
\<close>

record scsi_cmnd =
  device :: dptr
  cmnd :: "u8 list"
  cmd_len :: u16
  sc_data_direction :: data_direction
  sdb_length :: u32
  sglist :: "(u32 \<times> u32) list"
  host_scribble :: "cptr option"
  result :: u32
  SCp_ptr :: u32
  SCp_this_residual :: u32
  SCp_buffer :: "nat option"
  SCp_buffers_residual :: u32
  SCp_Status :: u32
  SCp_Message :: u32
  SCp_phase :: u32

section \<open>The host structure\<close>

record sx_period =
  period_ns :: u32
  reg_value :: u8

record hostdata =
  lock :: bool
  clock_freq :: u8
  chip :: u8
  microcode :: u8
  dma_dir :: u32
  dma_bounce_buffer :: u32
  dma_bounce_len :: u32
  busy :: "u8 list"
  input_Q :: "cptr option"
  selecting :: "cptr option"
  connected :: "cptr option"
  disconnected_Q :: "cptr option"
  state :: run_state
  dma :: dma_state
  level2 :: u8
  disconnect :: u8
  args :: u32
  incoming_msg :: "u8 list"
  incoming_ptr :: nat
  outgoing_msg :: "u8 list"
  outgoing_len :: nat
  default_sx_per :: u32
  sync_xfer :: "u8 list"
  sync_stat :: "sync_status list"
  no_sync :: u8
  no_dma :: u8
  dma_mode :: u8
  fast :: u8
  sx_table :: "sx_period list"
  proc :: u8
  cmd_cnt :: "u32 list"
  int_cnt :: u32
  pio_cnt :: u32
  dma_cnt :: u32
  disc_allowed_cnt :: "u32 list"
  disc_done_cnt :: "u32 list"

section \<open>The world\<close>

text \<open>
  The registers of \<^verbatim>\<open>struct a3000_scsiregs\<close> other than the two of the WD33C93.
\<close>

datatype sdreg = DAWR | WTC | CNTR | ACR | ST_DMA | FLUSH | CINT | ISTR | SP_DMA

text \<open>
  Everything the driver does to the outside is an event: accesses to the chip's address and
  data ports (\<open>SASR\<close>, \<open>SCMD\<close>) and to the SDMAC, cache maintenance, the kernel's allocator,
  interrupt masking, the completion call, and the claims on platform resources. Reads carry the value that was delivered.
\<close>

datatype event =
    Wr_SASR u8 | Wr_SCMD u8 | Rd_SASR u8 | Rd_SCMD u8
  | Wr_reg sdreg u32 | Rd_ISTR u16
  | Cache_clear u32 u32 | Cache_push u32 u32
  | Kmalloc u32 u32 | Kfree u32
  | Scsi_done cptr
  | Disable_irq | Enable_irq
  | Request_region | Release_region | Host_alloc | Host_put
  | Request_irq | Free_irq | Add_host | Remove_host | Scan_host

text \<open>
  Inputs are what the hardware and the allocator will answer: every read of a chip port takes
  the next value of \<open>wd_in\<close>, every read of ISTR the next of \<open>istr_in\<close>, every \<^verbatim>\<open>kmalloc\<close>
  the next of \<open>alloc_in\<close> (0 for NULL). A theorem about all inputs is a theorem about every
  chip; a run that asks for more than there is \<open>Waiting\<close>.
\<close>

record world =
  hdata :: hostdata
  cmds :: "cptr \<Rightarrow> scsi_cmnd"
  devs :: "dptr \<Rightarrow> scsi_device"
  mem :: "u32 \<Rightarrow> u8"
  wd_in :: "u8 list"
  istr_in :: "u16 list"
  alloc_in :: "u32 list"
  this_id :: u8
  host_lock :: bool
  events :: "event list"

type_synonym 'a drv = "(world, 'a) prog"

section \<open>What the driver calls\<close>

text \<open>
  Kernel services that are not part of the repository are parameters: the helpers that store a
  byte in \<^verbatim>\<open>cmd->result\<close>, the numbers of the host codes, the virtual-to-bus translation and
  the number parsers (value and unread rest of the string). The two DMA operations are function
  pointers in \<^verbatim>\<open>hostdata\<close>, set once by \<^verbatim>\<open>wd33c93_init\<close>.
\<close>

record kernel =
  set_host_byte :: "u32 \<Rightarrow> u32 \<Rightarrow> u32"
  set_status_byte :: "u32 \<Rightarrow> u32 \<Rightarrow> u32"
  scsi_msg_to_host_byte :: "u32 \<Rightarrow> u32 \<Rightarrow> u32"
  DID_OK :: u32
  DID_NO_CONNECT :: u32
  DID_ABORT :: u32
  DID_ERROR :: u32
  DID_RESET :: u32
  virt_to_bus :: "u32 \<Rightarrow> u32"
  simple_strtoul :: "string \<Rightarrow> u32 \<times> string"
  simple_strtol :: "string \<Rightarrow> u32 \<times> string"

record env = kernel +
  dma_setup :: "cptr \<Rightarrow> u32 \<Rightarrow> u32 drv"
  dma_stop :: "cptr option \<Rightarrow> u32 \<Rightarrow> unit drv"

section \<open>Access to the parts of the world\<close>

definition mod_hd :: "(hostdata \<Rightarrow> hostdata) \<Rightarrow> unit drv" where
  "mod_hd f = modify (\<lambda>w. w\<lparr>hdata := f (hdata w)\<rparr>)"

definition mod_cmd :: "cptr \<Rightarrow> (scsi_cmnd \<Rightarrow> scsi_cmnd) \<Rightarrow> unit drv" where
  "mod_cmd c f = modify (\<lambda>w. w\<lparr>cmds := (cmds w)(c := f (cmds w c))\<rparr>)"

definition mod_dev :: "dptr \<Rightarrow> (scsi_device \<Rightarrow> scsi_device) \<Rightarrow> unit drv" where
  "mod_dev d f = modify (\<lambda>w. w\<lparr>devs := (devs w)(d := f (devs w d))\<rparr>)"

definition emit :: "event \<Rightarrow> unit drv" where
  "emit ev = modify (\<lambda>w. w\<lparr>events := events w @ [ev]\<rparr>)"

abbreviation dev_of :: "world \<Rightarrow> cptr \<Rightarrow> scsi_device" where
  "dev_of w c \<equiv> devs w (device (cmds w c))"

abbreviation id_of :: "world \<Rightarrow> cptr \<Rightarrow> nat" where
  "id_of w c \<equiv> unat (dev_id (dev_of w c))"

lemma mod_hd_run [run_simps]: "mod_hd f w = Inr ((), w\<lparr>hdata := f (hdata w)\<rparr>)"
  by (simp add: mod_hd_def modify_run)

lemma mod_cmd_run [run_simps]:
  "mod_cmd c f w = Inr ((), w\<lparr>cmds := (cmds w)(c := f (cmds w c))\<rparr>)"
  by (simp add: mod_cmd_def modify_run)

lemma mod_dev_run [run_simps]:
  "mod_dev d f w = Inr ((), w\<lparr>devs := (devs w)(d := f (devs w d))\<rparr>)"
  by (simp add: mod_dev_def modify_run)

lemma emit_run [run_simps]: "emit ev w = Inr ((), w\<lparr>events := events w @ [ev]\<rparr>)"
  by (simp add: emit_def modify_run)

lemma keeps_mod_hd [keeps_intros]:
  "(\<And>w. f (w\<lparr>hdata := g (hdata w)\<rparr>) = f w) \<Longrightarrow> keeps f (mod_hd g)"
  unfolding mod_hd_def by (rule keeps_modify)

lemma keeps_mod_cmd [keeps_intros]:
  "(\<And>w. f (w\<lparr>cmds := (cmds w)(c := g (cmds w c))\<rparr>) = f w) \<Longrightarrow> keeps f (mod_cmd c g)"
  unfolding mod_cmd_def by (rule keeps_modify)

lemma keeps_mod_dev [keeps_intros]:
  "(\<And>w. f (w\<lparr>devs := (devs w)(d := g (devs w d))\<rparr>) = f w) \<Longrightarrow> keeps f (mod_dev d g)"
  unfolding mod_dev_def by (rule keeps_modify)

lemma keeps_emit [keeps_intros]:
  "(\<And>w. f (w\<lparr>events := events w @ [ev]\<rparr>) = f w) \<Longrightarrow> keeps f (emit ev)"
  unfolding emit_def by (rule keeps_modify)

section \<open>Locks\<close>

text \<open>
  \<open>hostdata->lock\<close>: taking it while it is held would spin for ever, releasing it while it is
  free is an error.
\<close>

definition spin_lock :: "unit drv" where
  "spin_lock = peek (\<lambda>w. if lock (hdata w) then throw Deadlock
                          else mod_hd (\<lambda>h. h\<lparr>lock := True\<rparr>))"

definition spin_unlock :: "unit drv" where
  "spin_unlock = peek (\<lambda>w. if lock (hdata w) then mod_hd (\<lambda>h. h\<lparr>lock := False\<rparr>)
                            else throw Bad_unlock)"

text \<open>\<open>instance->host_lock\<close>, likewise.\<close>

definition host_spin_lock :: "unit drv" where
  "host_spin_lock = peek (\<lambda>w. if host_lock w then throw Deadlock
                               else modify (\<lambda>w. w\<lparr>host_lock := True\<rparr>))"

definition host_spin_unlock :: "unit drv" where
  "host_spin_unlock = peek (\<lambda>w. if host_lock w then modify (\<lambda>w. w\<lparr>host_lock := False\<rparr>)
                                 else throw Bad_unlock)"

section \<open>Shapes of the arrays\<close>

text \<open>The C arrays have fixed lengths; \<open>wf_host\<close> records them.\<close>

definition wf_host :: "hostdata \<Rightarrow> bool" where
  "wf_host h \<longleftrightarrow>
     length (busy h) = 8 \<and> length (incoming_msg h) = 8 \<and> length (outgoing_msg h) = 8 \<and>
     length (sync_xfer h) = 8 \<and> length (sync_stat h) = 8 \<and> length (sx_table h) = 9 \<and>
     length (cmd_cnt h) = 8 \<and> length (disc_allowed_cnt h) = 8 \<and> length (disc_done_cnt h) = 8"

end
