(* ===== verification/CmdQueue.thy ===== *)
theory CmdQueue
  imports WdTypes
begin

text \<open>
  The command queues. \<^verbatim>\<open>input_Q\<close> and \<^verbatim>\<open>disconnected_Q\<close> are singly linked lists through
  \<^verbatim>\<open>cmd->host_scribble\<close>. The loops that walk them are written as they are in the code, on the
  pointers: on a cyclic list they do not return. \<open>linked\<close> says that a pointer heads the
  NULL-terminated list of given nodes; on such a list every loop returns, and the lemmas give what
  it returns in terms of the list of nodes.

  The locale \<open>queue_field\<close> is the interface between the two queues and their clients: a field of
  the host structure with its update. It is interpreted for both queues, so the effect of pushing
  and unlinking is proved once.
\<close>

section \<open>Walking a list\<close>

text \<open>
  \<open>prev = NULL; cmd = head; while (cmd) { if (stop(cmd)) break; prev = cmd; cmd = next(cmd); }\<close>
\<close>

partial_function (option) walk ::
  "('a \<Rightarrow> fault + bool) \<Rightarrow> ('a \<Rightarrow> 'a option) \<Rightarrow> 'a option \<Rightarrow> 'a option \<Rightarrow>
   (fault + 'a option \<times> 'a option) option" where
  "walk stop nxt prev cur =
     (case cur of
        None \<Rightarrow> Some (Inr (prev, None))
      | Some c \<Rightarrow>
          (case stop c of
             Inl f \<Rightarrow> Some (Inl f)
           | Inr b \<Rightarrow> if b then Some (Inr (prev, Some c)) else walk stop nxt (Some c) (nxt c)))"

definition search :: "('a \<Rightarrow> fault + bool) \<Rightarrow> ('a \<Rightarrow> 'a option) \<Rightarrow> 'a option \<Rightarrow>
    fault + 'a option \<times> 'a option" where
  "search stop nxt p = (case walk stop nxt None p of None \<Rightarrow> Inl Diverges | Some r \<Rightarrow> r)"

text \<open>\<open>for (tmp = head; next(tmp); tmp = next(tmp)) ;\<close>\<close>

partial_function (option) walk_end :: "('a \<Rightarrow> 'a option) \<Rightarrow> 'a \<Rightarrow> 'a option" where
  "walk_end nxt c = (case nxt c of None \<Rightarrow> Some c | Some d \<Rightarrow> walk_end nxt d)"

definition find_end :: "('a \<Rightarrow> 'a option) \<Rightarrow> 'a \<Rightarrow> fault + 'a" where
  "find_end nxt c = (case walk_end nxt c of None \<Rightarrow> Inl Diverges | Some d \<Rightarrow> Inr d)"

declare walk.simps [code] walk_end.simps [code]

section \<open>Linked lists\<close>

fun linked :: "('a \<Rightarrow> 'a option) \<Rightarrow> 'a option \<Rightarrow> 'a list \<Rightarrow> bool" where
  "linked nxt p [] \<longleftrightarrow> p = None"
| "linked nxt p (x # xs) \<longleftrightarrow> p = Some x \<and> linked nxt (nxt x) xs"

fun last_opt :: "'a list \<Rightarrow> 'a option" where
  "last_opt [] = None"
| "last_opt (x # xs) = Some (last (x # xs))"

lemma last_opt_snoc [simp]: "last_opt (xs @ [x]) = Some x"
  by (cases xs) simp_all

lemma last_opt_Some_in: "last_opt xs = Some x \<Longrightarrow> x \<in> set xs"
  by (cases xs) (auto split: if_splits)

lemma linked_cong:
  "linked nxt p xs \<Longrightarrow> (\<And>x. x \<in> set xs \<Longrightarrow> nxt' x = nxt x) \<Longrightarrow> linked nxt' p xs"
  by (induction xs arbitrary: p) auto

lemma linked_upd_other [simp]: "x \<notin> set xs \<Longrightarrow> linked (nxt(x := q)) p xs = linked nxt p xs"
  by (induction xs arbitrary: p) auto

lemma linked_det: "linked nxt p xs \<Longrightarrow> linked nxt p ys \<Longrightarrow> xs = ys"
proof (induction xs arbitrary: p ys)
  case Nil
  then show ?case by (cases ys) auto
next
  case (Cons x xs)
  then show ?case by (cases ys) auto
qed

lemma linked_split: "linked nxt p (xs @ y # ys) \<Longrightarrow> linked nxt (Some y) (y # ys)"
  by (induction xs arbitrary: p) auto

text \<open>A node cannot occur twice: the list would not end.\<close>

lemma linked_distinct: "linked nxt p xs \<Longrightarrow> distinct xs"
proof (induction xs arbitrary: p)
  case (Cons x xs)
  have "x \<notin> set xs"
  proof
    assume "x \<in> set xs"
    then obtain ys zs where xs: "xs = ys @ x # zs" by (auto dest: split_list)
    from Cons.prems have "linked nxt (nxt x) (ys @ x # zs)" by (simp add: xs)
    then have "linked nxt (Some x) (x # zs)" by (rule linked_split)
    moreover from Cons.prems have "linked nxt (Some x) (x # xs)" by auto
    ultimately have "zs = xs" using linked_det by blast
    with xs show False by simp
  qed
  with Cons show ?case by auto
qed simp

lemma linked_unlink:
  assumes "linked nxt p (xs @ x # ys)" and "xs \<noteq> []"
  shows "linked (nxt(last xs := nxt x)) p (xs @ ys)"
  using assms linked_distinct [OF assms(1)]
proof (induction xs arbitrary: p)
  case (Cons z zs)
  show ?case
  proof (cases "zs = []")
    case True
    with Cons.prems have "linked (nxt(z := nxt x)) (nxt x) ys"
      by (intro linked_upd_other [THEN iffD2]) auto
    with True Cons.prems show ?thesis by (simp del: fun_upd_apply add: fun_upd_same)
  next
    case False
    then have "last zs \<noteq> z" using Cons.prems by auto
    with False Cons show ?thesis by auto
  qed
qed simp

lemma linked_unlink_first: "linked nxt p (x # ys) \<Longrightarrow> linked nxt (nxt x) ys"
  by simp

lemma linked_append_end:
  assumes "linked nxt p xs" and "xs \<noteq> []" and "nxt y = None" and "y \<notin> set xs"
  shows "linked (nxt(last xs := Some y)) p (xs @ [y])"
  using assms linked_distinct [OF assms(1)]
proof (induction xs arbitrary: p)
  case (Cons z zs)
  show ?case
  proof (cases "zs = []")
    case True
    with Cons.prems show ?thesis by auto
  next
    case False
    then have "last zs \<noteq> z" using Cons.prems by auto
    with False Cons show ?thesis by auto
  qed
qed simp

section \<open>What the loops return on a linked list\<close>

lemma walk_found:
  assumes "linked nxt cur (xs @ x # ys)" and "stop x = Inr True"
    and "\<And>y. y \<in> set xs \<Longrightarrow> stop y = Inr False"
  shows "walk stop nxt prev cur =
    Some (Inr (case last_opt xs of None \<Rightarrow> prev | Some z \<Rightarrow> Some z, Some x))"
  using assms
proof (induction xs arbitrary: prev cur)
  case Nil
  then show ?case by (simp add: walk.simps)
next
  case (Cons z zs)
  then have "walk stop nxt prev cur = walk stop nxt (Some z) (nxt z)"
    by (subst walk.simps) simp
  with Cons show ?case by (cases zs) auto
qed

lemma walk_none:
  assumes "linked nxt cur xs" and "\<And>y. y \<in> set xs \<Longrightarrow> stop y = Inr False"
  shows "walk stop nxt prev cur =
    Some (Inr (case last_opt xs of None \<Rightarrow> prev | Some z \<Rightarrow> Some z, None))"
  using assms
proof (induction xs arbitrary: prev cur)
  case Nil
  then show ?case by (simp add: walk.simps)
next
  case (Cons z zs)
  then have "walk stop nxt prev cur = walk stop nxt (Some z) (nxt z)"
    by (subst walk.simps) simp
  with Cons show ?case by (cases zs) auto
qed

lemma search_found:
  assumes "linked nxt p (xs @ x # ys)" and "stop x = Inr True"
    and "\<And>y. y \<in> set xs \<Longrightarrow> stop y = Inr False"
  shows "search stop nxt p = Inr (last_opt xs, Some x)"
  using walk_found [where stop = stop and prev = None, OF assms] by (simp add: search_def split: option.splits)

lemma search_none:
  assumes "linked nxt p xs" and "\<And>y. y \<in> set xs \<Longrightarrow> stop y = Inr False"
  shows "search stop nxt p = Inr (last_opt xs, None)"
  using walk_none [where stop = stop and prev = None, OF assms] by (simp add: search_def split: option.splits)

text \<open>The two cases together: a returned search splits the list at the first match.\<close>

lemma search_linkedE:
  assumes "search stop nxt p = Inr (prev, cur)" and "linked nxt p xs"
    and "\<And>y. y \<in> set xs \<Longrightarrow> stop y = Inr (P y)"
  obtains
    (none) "cur = None" and "\<forall>y \<in> set xs. \<not> P y"
  | (found) c ys zs where "cur = Some c" and "xs = ys @ c # zs" and "prev = last_opt ys" and "P c"
      and "\<forall>y \<in> set ys. \<not> P y"
proof (cases "\<exists>c \<in> set xs. P c")
  case True
  then obtain ys c zs where xs: "xs = ys @ c # zs" "P c" "\<forall>y \<in> set ys. \<not> P y"
    using split_list_first_propE by metis
  have "search stop nxt p = Inr (last_opt ys, Some c)"
    using assms(2,3) xs by (intro search_found) auto
  with assms(1) xs show thesis by (intro found) auto
next
  case False
  have "search stop nxt p = Inr (last_opt xs, None)"
    using assms(2,3) False by (intro search_none) auto
  with assms(1) False show thesis by (intro none) auto
qed

lemma find_end_linked:
  assumes "linked nxt (Some c) xs"
  shows "find_end nxt c = Inr (last xs)"
proof -
  have "walk_end nxt c = Some (last xs)"
    using assms
  proof (induction xs arbitrary: c)
    case (Cons x xs)
    show ?case
    proof (cases xs)
      case Nil
      with Cons.prems show ?thesis by (simp add: walk_end.simps)
    next
      case (Cons d ds)
      with Cons.prems have "nxt c = Some d" and "linked nxt (Some d) xs" by auto
      with Cons.IH [of d] Cons show ?thesis by (subst walk_end.simps) simp
    qed
  qed simp
  then show ?thesis by (simp add: find_end_def)
qed

section \<open>The two queues of the driver\<close>

abbreviation next_of :: "world \<Rightarrow> cptr \<Rightarrow> cptr option" where
  "next_of w \<equiv> (\<lambda>c. host_scribble (cmds w c))"

definition queue_of :: "(hostdata \<Rightarrow> cptr option) \<Rightarrow> world \<Rightarrow> cptr list \<Rightarrow> bool" where
  "queue_of get w xs \<longleftrightarrow> linked (next_of w) (get (hdata w)) xs"

lemma queue_of_frame:
  assumes "queue_of g w xs" and "g (hdata w') = g (hdata w)"
    and "\<And>x. x \<in> set xs \<Longrightarrow> host_scribble (cmds w' x) = host_scribble (cmds w x)"
  shows "queue_of g w' xs"
  using assms(1) linked_cong [of "next_of w" "g (hdata w)" xs "next_of w'"] assms(2,3)
  by (simp add: queue_of_def)

text \<open>\<open>c->host_scribble = Q; Q = c;\<close>\<close>

definition push_q ::
  "(hostdata \<Rightarrow> cptr option) \<Rightarrow> ((cptr option \<Rightarrow> cptr option) \<Rightarrow> hostdata \<Rightarrow> hostdata) \<Rightarrow>
   cptr \<Rightarrow> world \<Rightarrow> world" where
  "push_q get upd c w =
     w\<lparr>cmds := (cmds w)(c := (cmds w c)\<lparr>host_scribble := get (hdata w)\<rparr>),
       hdata := upd (\<lambda>_. Some c) (hdata w)\<rparr>"

text \<open>\<open>if (prev) prev->host_scribble = c->host_scribble; else Q = c->host_scribble;\<close>\<close>

definition unlink_q ::
  "((cptr option \<Rightarrow> cptr option) \<Rightarrow> hostdata \<Rightarrow> hostdata) \<Rightarrow> cptr option \<Rightarrow> cptr \<Rightarrow> world \<Rightarrow> world" where
  "unlink_q upd prev c w =
     (case prev of
        Some p \<Rightarrow> w\<lparr>cmds := (cmds w)(p := (cmds w p)\<lparr>host_scribble := host_scribble (cmds w c)\<rparr>)\<rparr>
      | None \<Rightarrow> w\<lparr>hdata := upd (\<lambda>_. host_scribble (cmds w c)) (hdata w)\<rparr>)"

text \<open>\<open>tmp->host_scribble = c;\<close> with \<open>tmp\<close> the last node.\<close>

definition link_after :: "cptr \<Rightarrow> cptr \<Rightarrow> world \<Rightarrow> world" where
  "link_after tmp c w = w\<lparr>cmds := (cmds w)(tmp := (cmds w tmp)\<lparr>host_scribble := Some c\<rparr>)\<rparr>"

text \<open>
  The interface: a queue head in the host structure, its update, and any other queue head, which
  the update leaves alone.
\<close>

locale queue_field =
  fixes get :: "hostdata \<Rightarrow> cptr option"
    and upd :: "(cptr option \<Rightarrow> cptr option) \<Rightarrow> hostdata \<Rightarrow> hostdata"
    and other :: "hostdata \<Rightarrow> cptr option"
  assumes get_upd: "get (upd f h) = f (get h)"
    and other_upd: "other (upd f h) = other h"
begin

lemma push:
  assumes "queue_of get w xs" and "c \<notin> set xs"
  shows "queue_of get (push_q get upd c w) (c # xs)"
proof -
  have "linked (next_of (push_q get upd c w)) (get (hdata w)) xs"
    using assms(1) unfolding queue_of_def
    by (rule linked_cong) (use assms(2) in \<open>auto simp: push_q_def\<close>)
  then show ?thesis by (simp add: queue_of_def push_q_def get_upd)
qed

lemma push_other:
  assumes "queue_of other w ys" and "c \<notin> set ys"
  shows "queue_of other (push_q get upd c w) ys"
  using assms(1) by (rule queue_of_frame) (use assms(2) in \<open>auto simp: push_q_def other_upd\<close>)

lemma unlink:
  assumes "queue_of get w (ys @ c # zs)"
  shows "queue_of get (unlink_q upd (last_opt ys) c w) (ys @ zs)"
proof (cases ys)
  case Nil
  with assms show ?thesis
    by (auto simp: queue_of_def unlink_q_def get_upd)
next
  case (Cons y ys')
  have "next_of (unlink_q upd (last_opt ys) c w) = (next_of w)(last ys := next_of w c)"
    using Cons by (auto simp: unlink_q_def)
  moreover have "hdata (unlink_q upd (last_opt ys) c w) = hdata w"
    using Cons by (simp add: unlink_q_def)
  moreover have "linked ((next_of w)(last ys := next_of w c)) (get (hdata w)) (ys @ zs)"
    using assms Cons unfolding queue_of_def by (intro linked_unlink) auto
  ultimately show ?thesis by (simp add: queue_of_def)
qed

lemma unlink_other:
  assumes "queue_of other w xs" and "set ys \<inter> set xs = {}"
  shows "queue_of other (unlink_q upd (last_opt ys) c w) xs"
proof (cases "last_opt ys")
  case None
  show ?thesis
    using assms(1) by (rule queue_of_frame) (simp_all add: unlink_q_def None other_upd)
next
  case (Some p)
  have "p \<notin> set xs" using assms(2) last_opt_Some_in [OF Some] by auto
  with assms(1) show ?thesis
    by (intro queue_of_frame [OF assms(1)]) (auto simp: unlink_q_def Some)
qed

lemma append:
  assumes "queue_of get w xs" and "xs \<noteq> []" and "host_scribble (cmds w c) = None" and "c \<notin> set xs"
  shows "queue_of get (link_after (last xs) c w) (xs @ [c])"
proof -
  have "next_of (link_after (last xs) c w) = (next_of w)(last xs := Some c)"
    by (auto simp: link_after_def)
  moreover have "hdata (link_after (last xs) c w) = hdata w"
    by (simp add: link_after_def)
  ultimately show ?thesis
    using linked_append_end [of "next_of w" "get (hdata w)" xs c] assms by (simp add: queue_of_def)
qed

lemma append_other:
  assumes "queue_of other w ys" and "tmp \<notin> set ys"
  shows "queue_of other (link_after tmp c w) ys"
  using assms(1) by (rule queue_of_frame) (use assms(2) in \<open>auto simp: link_after_def\<close>)

end

interpretation iq: queue_field input_Q input_Q_update disconnected_Q
  by unfold_locales simp_all

interpretation dq: queue_field disconnected_Q disconnected_Q_update input_Q
  by unfold_locales simp_all

end
