(* ===== verification/WdBus.thy ===== *)
theory WdBus
  imports WdTypes
begin

text \<open>
  Register access (\<^verbatim>\<open>wd33c93.c\<close>, the memory-mapped variant the A3000 uses): the chip has an
  address port and a data port; the data port's register number advances by itself, which the
  multi-byte accesses rely on. Every access is one event of the log. The polling loops read the
  auxiliary status until an interrupt is flagged; each turn uses up at least one delivered
  value, so the recursion ends.
\<close>

section \<open>Single port accesses\<close>

definition wr_SASR :: "u8 \<Rightarrow> unit drv" where
  "wr_SASR v = emit (Wr_SASR v)"

definition wr_SCMD :: "u8 \<Rightarrow> unit drv" where
  "wr_SCMD v = emit (Wr_SCMD v)"

fun rd_SCMD :: "u8 drv" where
  "rd_SCMD w = (case wd_in w of
      [] \<Rightarrow> Inl Waiting
    | v # vs \<Rightarrow> Inr (v, w\<lparr>wd_in := vs, events := events w @ [Rd_SCMD v]\<rparr>))"

fun rd_SASR :: "u8 drv" where
  "rd_SASR w = (case wd_in w of
      [] \<Rightarrow> Inl Waiting
    | v # vs \<Rightarrow> Inr (v, w\<lparr>wd_in := vs, events := events w @ [Rd_SASR v]\<rparr>))"

declare rd_SCMD.simps [simp del] rd_SASR.simps [simp del]

section \<open>Register operations\<close>

definition read_wd33c93 :: "u8 \<Rightarrow> u8 drv" where
  "read_wd33c93 reg_num = thn (wr_SASR reg_num) rd_SCMD"

definition read_wd33c93_count :: "u32 drv" where
  "read_wd33c93_count =
     thn (wr_SASR WD_TRANSFER_COUNT_MSB)
    (bnd rd_SCMD (\<lambda>a. bnd rd_SCMD (\<lambda>b. bnd rd_SCMD (\<lambda>c.
       ret (push_bit 16 (ucast a) OR push_bit 8 (ucast b) OR ucast c)))))"

definition read_aux_stat :: "u8 drv" where
  "read_aux_stat = rd_SASR"

definition write_wd33c93 :: "u8 \<Rightarrow> u8 \<Rightarrow> unit drv" where
  "write_wd33c93 reg_num v = thn (wr_SASR reg_num) (wr_SCMD v)"

definition write_wd33c93_count :: "u32 \<Rightarrow> unit drv" where
  "write_wd33c93_count v =
     seqs [wr_SASR WD_TRANSFER_COUNT_MSB,
           wr_SCMD (ucast (drop_bit 16 v)), wr_SCMD (ucast (drop_bit 8 v)), wr_SCMD (ucast v)]"

definition write_wd33c93_cmd :: "u8 \<Rightarrow> unit drv" where
  "write_wd33c93_cmd cmd = thn (wr_SASR WD_COMMAND) (wr_SCMD cmd)"

text \<open>\<open>cmnd[i]\<close> is read for each \<open>i < len\<close>.\<close>

fun wr_cdb_from :: "nat \<Rightarrow> nat \<Rightarrow> u8 list \<Rightarrow> unit drv" where
  "wr_cdb_from 0 i bytes = ret ()"
| "wr_cdb_from (Suc n) i bytes =
     bnd (arr_get bytes i) (\<lambda>b. thn (wr_SCMD b) (wr_cdb_from n (Suc i) bytes))"

definition write_wd33c93_cdb :: "nat \<Rightarrow> u8 list \<Rightarrow> unit drv" where
  "write_wd33c93_cdb len bytes = thn (wr_SASR WD_CDB_1) (wr_cdb_from len 0 bytes)"

lemma read_wd33c93_run [run_simps]:
  "read_wd33c93 r w = (case wd_in w of [] \<Rightarrow> Inl Waiting
     | v # vs \<Rightarrow> Inr (v, w\<lparr>wd_in := vs, events := events w @ [Wr_SASR r, Rd_SCMD v]\<rparr>))"
  by (simp add: read_wd33c93_def wr_SASR_def run_simps rd_SCMD.simps split: list.splits)

lemma read_aux_stat_run [run_simps]:
  "read_aux_stat w = (case wd_in w of [] \<Rightarrow> Inl Waiting
     | v # vs \<Rightarrow> Inr (v, w\<lparr>wd_in := vs, events := events w @ [Rd_SASR v]\<rparr>))"
  by (simp add: read_aux_stat_def rd_SASR.simps)

lemma write_wd33c93_run [run_simps]:
  "write_wd33c93 r v w = Inr ((), w\<lparr>events := events w @ [Wr_SASR r, Wr_SCMD v]\<rparr>)"
  by (simp add: write_wd33c93_def wr_SASR_def wr_SCMD_def run_simps)

lemma write_wd33c93_cmd_run [run_simps]:
  "write_wd33c93_cmd v w = Inr ((), w\<lparr>events := events w @ [Wr_SASR WD_COMMAND, Wr_SCMD v]\<rparr>)"
  by (simp add: write_wd33c93_cmd_def wr_SASR_def wr_SCMD_def run_simps)

section \<open>Polling for one byte\<close>

lemma rd_SASR_shorter: "rd_SASR w = Inr (v, w') \<Longrightarrow> length (wd_in w') < length (wd_in w)"
  by (auto simp: rd_SASR.simps split: list.splits)

lemma rd_SCMD_shorter: "rd_SCMD w = Inr (v, w') \<Longrightarrow> length (wd_in w') < length (wd_in w)"
  by (auto simp: rd_SCMD.simps split: list.splits)

lemma read_aux_stat_shorter:
  "read_aux_stat w = Inr (v, w') \<Longrightarrow> length (wd_in w') < length (wd_in w)"
  by (simp add: read_aux_stat_def rd_SASR_shorter)

lemma read_wd33c93_shorter:
  "read_wd33c93 r w = Inr (v, w') \<Longrightarrow> length (wd_in w') < length (wd_in w)"
  unfolding read_wd33c93_def wr_SASR_def
  by (auto simp: run_simps dest: rd_SCMD_shorter)

text \<open>
  The loop of \<^verbatim>\<open>read_1_byte\<close>: \<open>x\<close> is the byte fetched last.
\<close>

function poll_1_byte :: "u8 \<Rightarrow> u8 drv" where
  "poll_1_byte x w =
     (case read_aux_stat w of
        Inl f \<Rightarrow> Inl f
      | Inr (asr, w1) \<Rightarrow>
          (case (if bit_on asr ASR_DBR then read_wd33c93 WD_DATA w1 else Inr (x, w1)) of
             Inl f \<Rightarrow> Inl f
           | Inr (x', w2) \<Rightarrow> if bit_on asr ASR_INT then Inr (x', w2) else poll_1_byte x' w2))"
  by pat_completeness auto
termination
  by (relation "measure (\<lambda>(x, w). length (wd_in w))")
    (auto split: if_splits dest!: read_aux_stat_shorter read_wd33c93_shorter)

declare poll_1_byte.simps [simp del]

definition read_1_byte :: "u8 drv" where
  "read_1_byte =
     thn (write_wd33c93 WD_CONTROL (CTRL_IDI OR CTRL_EDI OR CTRL_POLLED))
    (thn (write_wd33c93_cmd (WD_CMD_TRANS_INFO OR 0x80))
         (poll_1_byte 0))"

section \<open>What register access leaves alone\<close>

text \<open>
  Register access changes nothing but the delivered input and the log of accesses. \<open>io_free\<close> is
  the state without the inputs and with only the completion calls left in the log; everything the
  driver keeps in memory is a function of it.
\<close>

fun is_done :: "event \<Rightarrow> bool" where
  "is_done (Scsi_done c) = True"
| "is_done _ = False"

definition io_free :: "world \<Rightarrow> world" where
  "io_free w = w\<lparr>wd_in := [], istr_in := [], alloc_in := [], events := filter is_done (events w)\<rparr>"

lemma io_free_upd [simp]:
  "io_free (w\<lparr>wd_in := x\<rparr>) = io_free w"
  "io_free (w\<lparr>istr_in := u\<rparr>) = io_free w" "io_free (w\<lparr>alloc_in := v\<rparr>) = io_free w"
  "\<not> is_done ev \<Longrightarrow> io_free (w\<lparr>events := events w @ [ev]\<rparr>) = io_free w"
  "\<not> is_done ev \<Longrightarrow> io_free (w\<lparr>wd_in := x, events := events w @ [ev]\<rparr>) = io_free w"
  by (simp_all add: io_free_def)

lemma io_free_sel [simp]:
  "hdata (io_free w) = hdata w" "cmds (io_free w) = cmds w" "devs (io_free w) = devs w"
  "mem (io_free w) = mem w" "this_id (io_free w) = this_id w" "host_lock (io_free w) = host_lock w"
  "filter is_done (events (io_free w)) = filter is_done (events w)"
  by (simp_all add: io_free_def)

lemma io_free_eqD:
  assumes "io_free w' = io_free w"
  shows "hdata w' = hdata w" "cmds w' = cmds w" "devs w' = devs w" "mem w' = mem w"
    "this_id w' = this_id w" "host_lock w' = host_lock w"
    "filter is_done (events w') = filter is_done (events w)"
  using assms by (metis io_free_sel)+

lemma keeps_emit_io [keeps_intros]: "\<not> is_done ev \<Longrightarrow> keeps io_free (emit ev)"
  by (simp add: keeps_def emit_run)

lemma io_keeps [keeps_intros]:
  "keeps io_free (wr_SASR v)" "keeps io_free (wr_SCMD v)"
  "keeps io_free rd_SCMD" "keeps io_free rd_SASR" "keeps io_free read_aux_stat"
  by (auto simp: wr_SASR_def wr_SCMD_def read_aux_stat_def keeps_def rd_SCMD.simps rd_SASR.simps
      run_simps split: list.splits)

lemma keeps_read_wd33c93 [keeps_intros]: "keeps io_free (read_wd33c93 r)"
  unfolding read_wd33c93_def by (intro keeps_intros)

lemma keeps_read_count [keeps_intros]: "keeps io_free read_wd33c93_count"
  unfolding read_wd33c93_count_def by (intro keeps_intros)

lemma keeps_write_wd33c93 [keeps_intros]: "keeps io_free (write_wd33c93 r v)"
  unfolding write_wd33c93_def by (intro keeps_intros)

lemma keeps_write_cmd [keeps_intros]: "keeps io_free (write_wd33c93_cmd v)"
  unfolding write_wd33c93_cmd_def by (intro keeps_intros)

lemma keeps_write_count [keeps_intros]: "keeps io_free (write_wd33c93_count v)"
  unfolding write_wd33c93_count_def by (auto intro!: keeps_intros)

lemma keeps_wr_cdb_from [keeps_intros]: "keeps io_free (wr_cdb_from n i bytes)"
  by (induction n i bytes rule: wr_cdb_from.induct) (auto intro!: keeps_intros)

lemma keeps_write_cdb [keeps_intros]: "keeps io_free (write_wd33c93_cdb n bytes)"
  unfolding write_wd33c93_cdb_def by (intro keeps_intros)

lemma keeps_poll_1_byte [keeps_intros]: "keeps io_free (poll_1_byte x)"
proof (rule keepsI)
  fix w v w'
  show "poll_1_byte x w = Inr (v, w') \<Longrightarrow> io_free w' = io_free w"
  proof (induction x w arbitrary: v w' rule: poll_1_byte.induct)
    case (1 x w)
    show ?case
      using "1.prems" "1.IH"
      by (subst (asm) poll_1_byte.simps)
        (auto split: sum.splits if_splits prod.splits
          dest!: keepsD [OF io_keeps(5)] keepsD [OF keeps_read_wd33c93])
  qed
qed

lemma keeps_read_1_byte [keeps_intros]: "keeps io_free read_1_byte"
  unfolding read_1_byte_def by (intro keeps_intros)

end
