(* ===== verification/WdExec.thy ===== *)
theory WdExec
  imports CmdQueue WdBus
begin

text \<open>
  Accepting and starting commands: \<^verbatim>\<open>wd33c93_queuecommand_lck\<close> and \<^verbatim>\<open>wd33c93_execute\<close> of
  \<^verbatim>\<open>wd33c93.c\<close>. A new command goes to the end of the input queue, a REQUEST SENSE to its head;
  then, when the bus is free, the first queued command whose target and lun have nothing
  outstanding is taken out of the queue and its selection is started, either step by step
  (select with ATN) or as one combination command (select-with-ATN-and-transfer).
\<close>

section \<open>The busy map\<close>

text \<open>\<open>1 << (lun & 0xff)\<close>, an \<open>int\<close> shift.\<close>

definition lun_mask :: "u64 \<Rightarrow> fault + u32" where
  "lun_mask lun = (if 32 \<le> unat (lun AND 0xff) then Inl Bad_shift
                   else Inr (push_bit (unat (lun AND 0xff)) 1))"

text \<open>Whether command \<open>c\<close> may start: \<open>!(busy[id] & (1 << (lun & 0xff)))\<close>.\<close>

definition runnable :: "world \<Rightarrow> cptr \<Rightarrow> fault + bool" where
  "runnable w c =
     (if length (busy (hdata w)) \<le> id_of w c then Inl Out_of_bounds
      else case lun_mask (dev_lun (dev_of w c)) of
             Inl f \<Rightarrow> Inl f
           | Inr m \<Rightarrow> Inr (\<not> bit_on (ucast (busy (hdata w) ! id_of w c)) m))"

definition set_busy :: "cptr \<Rightarrow> unit drv" where
  "set_busy c = peek (\<lambda>w.
     bnd (arr_get (busy (hdata w)) (id_of w c)) (\<lambda>b.
     bnd (lift (lun_mask (dev_lun (dev_of w c)))) (\<lambda>m.
       mod_hd (\<lambda>h. h\<lparr>busy := (busy h)[id_of w c := b OR ucast m]\<rparr>))))"

definition clear_busy :: "cptr \<Rightarrow> unit drv" where
  "clear_busy c = peek (\<lambda>w.
     bnd (arr_get (busy (hdata w)) (id_of w c)) (\<lambda>b.
     bnd (lift (lun_mask (dev_lun (dev_of w c)))) (\<lambda>m.
       mod_hd (\<lambda>h. h\<lparr>busy := (busy h)[id_of w c := b AND ucast (NOT m)]\<rparr>))))"

section \<open>Starting a command\<close>

definition count_cmd :: "cptr \<Rightarrow> unit drv" where
  "count_cmd c = peek (\<lambda>w.
     bnd (arr_get (cmd_cnt (hdata w)) (id_of w c)) (\<lambda>n.
       mod_hd (\<lambda>h. h\<lparr>cmd_cnt := (cmd_cnt h)[id_of w c := n + 1]\<rparr>)))"

definition write_destination :: "cptr \<Rightarrow> unit drv" where
  "write_destination c = peek (\<lambda>w.
     if sc_data_direction (cmds w c) = DMA_TO_DEVICE
     then write_wd33c93 WD_DESTINATION_ID (ucast (dev_id (dev_of w c)))
     else write_wd33c93 WD_DESTINATION_ID (ucast (dev_id (dev_of w c)) OR DSTID_DPD))"

text \<open>The inner loop of the policy: every command of the queue gets \<open>SCp.phase = 1\<close>.\<close>

partial_function (option) mark_phase ::
  "cptr option \<Rightarrow> (cptr \<Rightarrow> scsi_cmnd) \<Rightarrow> (cptr \<Rightarrow> scsi_cmnd) option" where
  "mark_phase p cs =
     (case p of
        None \<Rightarrow> Some cs
      | Some c \<Rightarrow> let cs' = cs(c := (cs c)\<lparr>SCp_phase := 1\<rparr>)
                  in mark_phase (host_scribble (cs' c)) cs')"

definition mark_queue :: "cptr option \<Rightarrow> unit drv" where
  "mark_queue p = peek (\<lambda>w. case mark_phase p (cmds w) of
                              None \<Rightarrow> throw Diverges
                            | Some cs \<Rightarrow> modify (\<lambda>w. w\<lparr>cmds := cs\<rparr>))"

declare mark_phase.simps [code]

text \<open>Another queued command for a different target or lun.\<close>

definition other_target :: "world \<Rightarrow> cptr \<Rightarrow> cptr \<Rightarrow> fault + bool" where
  "other_target w c p = Inr (dev_id (dev_of w p) \<noteq> dev_id (dev_of w c) \<or>
                             dev_lun (dev_of w p) \<noteq> dev_lun (dev_of w c))"

text \<open>The label \<open>yes:\<close>.\<close>

definition allow_disconnect :: "cptr \<Rightarrow> unit drv" where
  "allow_disconnect c =
     thn (mod_cmd c (\<lambda>k. k\<lparr>SCp_phase := 1\<rparr>))
         (peek (\<lambda>w. bnd (arr_get (disc_allowed_cnt (hdata w)) (id_of w c)) (\<lambda>n.
            mod_hd (\<lambda>h. h\<lparr>disc_allowed_cnt := (disc_allowed_cnt h)[id_of w c := n + 1]\<rparr>))))"

definition disconnect_policy :: "cptr \<Rightarrow> unit drv" where
  "disconnect_policy c =
     thn (mod_cmd c (\<lambda>k. k\<lparr>SCp_phase := 0\<rparr>))
    (peek (\<lambda>w.
       if disconnect (hdata w) = DIS_NEVER then ret ()
       else if disconnect (hdata w) = DIS_ALWAYS then allow_disconnect c
       else if dev_type (dev_of w c) = 1 then allow_disconnect c
       else if disconnected_Q (hdata w) \<noteq> None then allow_disconnect c
       else if input_Q (hdata w) = None then ret ()
       else bnd (lift (search (other_target w c) (next_of w) (input_Q (hdata w)))) (\<lambda>(prev, cur).
              case cur of
                None \<Rightarrow> ret ()
              | Some p \<Rightarrow> thn (mark_queue (input_Q (hdata w))) (allow_disconnect c))))"

definition select_registers :: "cptr \<Rightarrow> unit drv" where
  "select_registers c = peek (\<lambda>w.
     thn (write_wd33c93 WD_SOURCE_ID (if SCp_phase (cmds w c) \<noteq> 0 then SRCID_ER else 0))
    (thn (write_wd33c93 WD_TARGET_LUN (ucast (dev_lun (dev_of w c))))
    (bnd (arr_get (sync_xfer (hdata w)) (id_of w c)) (\<lambda>s.
    (thn (write_wd33c93 WD_SYNCHRONOUS_TRANSFER s)
         (set_busy c))))))"

text \<open>Select with ATN.\<close>

definition start_select :: "cptr \<Rightarrow> unit drv" where
  "start_select c = peek (\<lambda>w.
     seqs [mod_hd (\<lambda>h. h\<lparr>selecting := Some c\<rparr>),
           bnd (arr_get (sync_stat (hdata w)) (id_of w c)) (\<lambda>s.
             when_do (s = SS_UNSET)
               (mod_hd (\<lambda>h. h\<lparr>sync_stat := (sync_stat h)[id_of w c := SS_FIRST]\<rparr>))),
           mod_hd (\<lambda>h. h\<lparr>state := S_SELECTING\<rparr>),
           write_wd33c93_count 0,
           write_wd33c93_cmd WD_CMD_SEL_ATN])"

text \<open>The data phase of the combination command: DMA is prepared ahead when no disconnect can happen.\<close>

definition prepare_data :: "env \<Rightarrow> cptr \<Rightarrow> unit drv" where
  "prepare_data e c = peek (\<lambda>w.
     if SCp_phase (cmds w c) = 0 \<and> no_dma (hdata w) = 0
     then bnd (dma_setup e c (if sc_data_direction (cmds w c) = DMA_TO_DEVICE then DATA_OUT_DIR
                              else DATA_IN_DIR)) (\<lambda>r.
            if r \<noteq> 0 then write_wd33c93_count 0
            else peek (\<lambda>w.
              seqs [write_wd33c93_count (SCp_this_residual (cmds w c)),
                    write_wd33c93 WD_CONTROL (CTRL_IDI OR CTRL_EDI OR dma_mode (hdata w)),
                    mod_hd (\<lambda>h. h\<lparr>dma := D_DMA_RUNNING\<rparr>)]))
     else write_wd33c93_count 0)"

definition start_select_xfer :: "env \<Rightarrow> cptr \<Rightarrow> unit drv" where
  "start_select_xfer e c = peek (\<lambda>w.
     seqs [mod_hd (\<lambda>h. h\<lparr>connected := Some c\<rparr>),
           write_wd33c93 WD_COMMAND_PHASE 0,
           write_wd33c93_cdb (unat (cmd_len (cmds w c))) (cmnd (cmds w c)),
           write_wd33c93 WD_OWN_ID (ucast (cmd_len (cmds w c))),
           prepare_data e c,
           mod_hd (\<lambda>h. h\<lparr>state := S_RUNNING_LEVEL2\<rparr>),
           write_wd33c93_cmd WD_CMD_SEL_ATN_XFER])"

definition start_cmd :: "env \<Rightarrow> cptr \<Rightarrow> unit drv" where
  "start_cmd e c =
     seqs [count_cmd c, write_destination c, disconnect_policy c, select_registers c,
           peek (\<lambda>w. bnd (arr_get (sync_stat (hdata w)) (id_of w c)) (\<lambda>s.
             if level2 (hdata w) = L2_NONE \<or> s = SS_UNSET then start_select c
             else start_select_xfer e c))]"

definition wd33c93_execute :: "env \<Rightarrow> unit drv" where
  "wd33c93_execute e = peek (\<lambda>w.
     if selecting (hdata w) \<noteq> None \<or> connected (hdata w) \<noteq> None then ret ()
     else bnd (lift (search (runnable w) (next_of w) (input_Q (hdata w)))) (\<lambda>(prev, cur).
            case cur of
              None \<Rightarrow> ret ()
            | Some c \<Rightarrow> thn (modify (unlink_q input_Q_update prev c)) (start_cmd e c)))"

section \<open>Accepting a command\<close>

definition init_SCp :: "cptr \<Rightarrow> unit drv" where
  "init_SCp c = peek (\<lambda>w.
     if sdb_length (cmds w c) \<noteq> 0
     then (case sglist (cmds w c) of
             [] \<Rightarrow> throw Null_deref
           | (addr, len) # rest \<Rightarrow>
               mod_cmd c (\<lambda>k. k\<lparr>SCp_buffer := Some 0,
                                SCp_buffers_residual := of_nat (length (sglist k)) - 1,
                                SCp_ptr := addr, SCp_this_residual := len\<rparr>))
     else mod_cmd c (\<lambda>k. k\<lparr>SCp_buffer := None, SCp_buffers_residual := 0,
                            SCp_ptr := 0, SCp_this_residual := 0\<rparr>))"

definition enqueue :: "cptr \<Rightarrow> unit drv" where
  "enqueue c = peek (\<lambda>w.
     bnd (if input_Q (hdata w) = None then ret True
          else bnd (arr_get (cmnd (cmds w c)) 0) (\<lambda>op. ret (op = REQUEST_SENSE))) (\<lambda>front.
     if front then modify (push_q input_Q input_Q_update c)
     else deref (input_Q (hdata w)) (\<lambda>q.
            bnd (lift (find_end (next_of w) q)) (\<lambda>tmp. modify (link_after tmp c)))))"

definition wd33c93_queuecommand_lck :: "env \<Rightarrow> cptr \<Rightarrow> u32 drv" where
  "wd33c93_queuecommand_lck e c =
     thn (mod_cmd c (\<lambda>k. k\<lparr>host_scribble := None, result := 0\<rparr>))
    (thn (init_SCp c)
    (thn (mod_cmd c (\<lambda>k. k\<lparr>SCp_Status := ILLEGAL_STATUS_BYTE\<rparr>))
    (thn spin_lock
    (thn (enqueue c)
    (thn (wd33c93_execute e)
    (thn spin_unlock
         (ret 0)))))))"

end
