(* ===== verification/CmdLife.thy ===== *)
theory CmdLife
  imports WdExec "HOL-Library.Multiset"
begin

text \<open>
  The life of a command, abstractly. A command waits in the input queue, is being selected, is
  connected, or is disconnected (the target has let go of the bus and will reselect); it ends by
  being completed. \<open>c_step\<close> are the moves the driver may make; \<open>wf_view\<close> is what makes them
  sound: no command is in two places, no two outstanding commands have the same target and lun,
  and selection and connection exclude each other. \<open>REP A v w\<close> relates the driver's memory
  to this view: the two linked lists, the two pointers, the busy map and the completion log.
\<close>

section \<open>The abstract machine\<close>

fun opt_list :: "'a option \<Rightarrow> 'a list" where
  "opt_list None = []"
| "opt_list (Some x) = [x]"

record cview =
  v_in :: "cptr list"
  v_dis :: "cptr list"
  v_sel :: "cptr option"
  v_con :: "cptr option"
  v_done :: "cptr list"

definition outstanding :: "cview \<Rightarrow> cptr list" where
  "outstanding v = opt_list (v_sel v) @ opt_list (v_con v) @ v_dis v"

definition active :: "cview \<Rightarrow> cptr list" where
  "active v = v_in v @ outstanding v"

text \<open>Every command the driver has been given and has not lost.\<close>

definition account :: "cview \<Rightarrow> cptr multiset" where
  "account v = mset (active v) + mset (v_done v)"

definition wf_view :: "(cptr \<Rightarrow> nat \<times> nat) \<Rightarrow> cview \<Rightarrow> bool" where
  "wf_view addr v \<longleftrightarrow> distinct (active v) \<and> distinct (map addr (outstanding v)) \<and>
     (v_sel v = None \<or> v_con v = None)"

inductive c_step :: "(cptr \<Rightarrow> nat \<times> nat) \<Rightarrow> cview \<Rightarrow> cview \<Rightarrow> bool" for addr where
  start_selecting:
    "v_sel v = None \<Longrightarrow> v_con v = None \<Longrightarrow> v_in v = xs @ c # ys \<Longrightarrow>
     addr c \<notin> addr ` set (outstanding v) \<Longrightarrow>
     c_step addr v (v\<lparr>v_in := xs @ ys, v_sel := Some c\<rparr>)"
| start_connected:
    "v_sel v = None \<Longrightarrow> v_con v = None \<Longrightarrow> v_in v = xs @ c # ys \<Longrightarrow>
     addr c \<notin> addr ` set (outstanding v) \<Longrightarrow>
     c_step addr v (v\<lparr>v_in := xs @ ys, v_con := Some c\<rparr>)"
| selected:
    "v_sel v = Some c \<Longrightarrow> v_con v = None \<Longrightarrow>
     c_step addr v (v\<lparr>v_sel := None, v_con := Some c\<rparr>)"
| finish_selecting:
    "v_sel v = Some c \<Longrightarrow> c_step addr v (v\<lparr>v_sel := None, v_done := v_done v @ [c]\<rparr>)"
| finish_connected:
    "v_con v = Some c \<Longrightarrow> c_step addr v (v\<lparr>v_con := None, v_done := v_done v @ [c]\<rparr>)"
| disconnect:
    "v_con v = Some c \<Longrightarrow> c_step addr v (v\<lparr>v_con := None, v_dis := c # v_dis v\<rparr>)"
| reselect:
    "v_sel v = None \<Longrightarrow> v_con v = None \<Longrightarrow> v_dis v = xs @ c # ys \<Longrightarrow>
     c_step addr v (v\<lparr>v_dis := xs @ ys, v_con := Some c\<rparr>)"
| requeue_selecting:
    "v_sel v = Some c \<Longrightarrow> c_step addr v (v\<lparr>v_sel := None, v_in := c # v_in v\<rparr>)"
| requeue_connected:
    "v_con v = Some c \<Longrightarrow> c_step addr v (v\<lparr>v_con := None, v_in := c # v_in v\<rparr>)"
| abort_queued:
    "v_in v = xs @ c # ys \<Longrightarrow> c_step addr v (v\<lparr>v_in := xs @ ys, v_done := v_done v @ [c]\<rparr>)"

lemma c_step_account: "c_step addr v v' \<Longrightarrow> account v' = account v"
  by (induction rule: c_step.induct) (auto simp: account_def active_def outstanding_def)

lemma c_step_wf: "c_step addr v v' \<Longrightarrow> wf_view addr v \<Longrightarrow> wf_view addr v'"
  by (induction rule: c_step.induct) (auto simp: wf_view_def active_def outstanding_def)

lemma c_steps_account: "(c_step addr)\<^sup>*\<^sup>* v v' \<Longrightarrow> account v' = account v"
  by (induction rule: rtranclp_induct) (auto dest: c_step_account)

lemma c_steps_wf: "(c_step addr)\<^sup>*\<^sup>* v v' \<Longrightarrow> wf_view addr v \<Longrightarrow> wf_view addr v'"
  by (induction rule: rtranclp_induct) (auto dest: c_step_wf)

section \<open>The busy map as a set of addresses\<close>

definition addr_of :: "world \<Rightarrow> cptr \<Rightarrow> nat \<times> nat" where
  "addr_of w c = (id_of w c, unat (dev_lun (dev_of w c)))"

definition addr_ok :: "world \<Rightarrow> cptr \<Rightarrow> bool" where
  "addr_ok w c \<longleftrightarrow> id_of w c < 8 \<and> unat (dev_lun (dev_of w c)) < 8"

definition busy_set :: "u8 list \<Rightarrow> (nat \<times> nat) set" where
  "busy_set b = {(t, l). t < length b \<and> l < 8 \<and> bit (b ! t) l}"

lemma unat_lun: "unat (lun AND 0xff) = unat lun" if "unat lun < 8" for lun :: u64
proof -
  have "lun AND 0xff = take_bit 8 lun" by (simp add: take_bit_eq_mask mask_eq_decr_exp)
  then have "unat (lun AND 0xff) = take_bit 8 (unat lun)"
    by (simp add: unsigned_take_bit_eq)
  with that show ?thesis by (simp add: take_bit_nat_eq_self)
qed

lemma lun_mask_ok: "unat lun < 8 \<Longrightarrow> lun_mask lun = Inr (2 ^ unat lun)"
  by (simp add: lun_mask_def unat_lun)

lemma bit_lun_mask: "l < 8 \<Longrightarrow> bit (ucast (2 ^ l :: u32) :: u8) k \<longleftrightarrow> k = l"
  by (auto simp: bit_simps)

lemma bit_not_lun_mask: "l < 8 \<Longrightarrow> k < 8 \<Longrightarrow> bit (ucast (NOT (2 ^ l :: u32)) :: u8) k \<longleftrightarrow> k \<noteq> l"
  by (auto simp: bit_simps)

lemma bit_on_mask: "bit_on x (2 ^ l) \<longleftrightarrow> bit x l" if "l < LENGTH('a)" for x :: "'a::len word"
proof -
  have "x AND 2 ^ l = (if bit x l then 2 ^ l else 0)"
    by (rule bit_word_eqI) (auto simp: bit_simps)
  moreover have "2 ^ l \<noteq> (0 :: 'a word)" using that by simp
  ultimately show ?thesis by (simp add: bit_on_def)
qed

lemma busy_set_update:
  assumes "t < length b" and "l < 8"
  shows "busy_set (b[t := (b ! t) OR ucast (2 ^ l :: u32)]) = insert (t, l) (busy_set b)"
    and "busy_set (b[t := (b ! t) AND ucast (NOT (2 ^ l :: u32))]) = busy_set b - {(t, l)}"
  using assms by (auto simp: busy_set_def nth_list_update bit_or_iff bit_and_iff bit_lun_mask
      bit_not_lun_mask split: if_splits)

lemma runnable_ok:
  assumes "addr_ok w c" and "length (busy (hdata w)) = 8"
  shows "runnable w c = Inr (addr_of w c \<notin> busy_set (busy (hdata w)))"
  using assms by (auto simp: runnable_def lun_mask_ok addr_ok_def addr_of_def busy_set_def
      bit_on_mask bit_ucast_iff)

lemma set_busy_run:
  assumes "addr_ok w c" and "length (busy (hdata w)) = 8"
  shows "\<exists>b. set_busy c w = Inr ((), w\<lparr>hdata := (hdata w)\<lparr>busy := b\<rparr>\<rparr>) \<and> length b = 8 \<and>
    busy_set b = insert (addr_of w c) (busy_set (busy (hdata w)))"
proof -
  let ?l = "unat (dev_lun (dev_of w c))"
  let ?b = "(busy (hdata w))[id_of w c := busy (hdata w) ! id_of w c OR ucast (2 ^ ?l :: u32)]"
  have "set_busy c w = Inr ((), w\<lparr>hdata := (hdata w)\<lparr>busy := ?b\<rparr>\<rparr>)"
    using assms by (simp add: set_busy_def run_simps addr_ok_def lun_mask_ok)
  moreover have "busy_set ?b = insert (addr_of w c) (busy_set (busy (hdata w)))"
    using assms by (simp add: busy_set_update addr_ok_def addr_of_def)
  ultimately show ?thesis using assms by (intro exI [of _ ?b]) simp
qed

lemma clear_busy_run:
  assumes "addr_ok w c" and "length (busy (hdata w)) = 8"
  shows "\<exists>b. clear_busy c w = Inr ((), w\<lparr>hdata := (hdata w)\<lparr>busy := b\<rparr>\<rparr>) \<and> length b = 8 \<and>
    busy_set b = busy_set (busy (hdata w)) - {addr_of w c}"
proof -
  let ?l = "unat (dev_lun (dev_of w c))"
  let ?b = "(busy (hdata w))[id_of w c := busy (hdata w) ! id_of w c AND ucast (NOT (2 ^ ?l :: u32))]"
  have "clear_busy c w = Inr ((), w\<lparr>hdata := (hdata w)\<lparr>busy := ?b\<rparr>\<rparr>)"
    using assms by (simp add: clear_busy_def run_simps addr_ok_def lun_mask_ok)
  moreover have "busy_set ?b = busy_set (busy (hdata w)) - {addr_of w c}"
    using assms by (simp add: busy_set_update addr_ok_def addr_of_def)
  ultimately show ?thesis using assms by (intro exI [of _ ?b]) simp
qed

section \<open>The representation relation\<close>

text \<open>The part of the driver's memory the view depends on.\<close>

definition qcore :: "world \<Rightarrow> (cptr option \<times> cptr option \<times> cptr option \<times> cptr option \<times> u8 list) \<times>
    (cptr \<Rightarrow> cptr option \<times> dptr) \<times> (dptr \<Rightarrow> u32 \<times> u64) \<times> event list" where
  "qcore w = ((input_Q (hdata w), disconnected_Q (hdata w), selecting (hdata w), connected (hdata w),
               busy (hdata w)),
              (\<lambda>c. (host_scribble (cmds w c), device (cmds w c))),
              (\<lambda>d. (dev_id (devs w d), dev_lun (devs w d))),
              filter is_done (events w))"

text \<open>
  \<open>R A v B\<close>: the memory shows the view \<open>v\<close>, targets and luns are given by \<open>A\<close>, and the busy map
  is the set \<open>B\<close>. \<open>REP\<close> asks for the busy map to be exactly the addresses of the outstanding
  commands, and for every active command to have a target and a lun the map has room for.
\<close>

definition R :: "(cptr \<Rightarrow> nat \<times> nat) \<Rightarrow> cview \<Rightarrow> (nat \<times> nat) set \<Rightarrow> world \<Rightarrow> bool" where
  "R A v B w \<longleftrightarrow>
     addr_of w = A \<and>
     queue_of input_Q w (v_in v) \<and> queue_of disconnected_Q w (v_dis v) \<and>
     selecting (hdata w) = v_sel v \<and> connected (hdata w) = v_con v \<and>
     filter is_done (events w) = map Scsi_done (v_done v) \<and>
     length (busy (hdata w)) = 8 \<and> busy_set (busy (hdata w)) = B"

definition ok_addr :: "(cptr \<Rightarrow> nat \<times> nat) \<Rightarrow> cptr \<Rightarrow> bool" where
  "ok_addr A c \<longleftrightarrow> fst (A c) < 8 \<and> snd (A c) < 8"

definition REP :: "(cptr \<Rightarrow> nat \<times> nat) \<Rightarrow> cview \<Rightarrow> world \<Rightarrow> bool" where
  "REP A v w \<longleftrightarrow> R A v (A ` set (outstanding v)) w \<and> (\<forall>c \<in> set (active v). ok_addr A c)"

lemma ok_addr_of: "ok_addr (addr_of w) c \<longleftrightarrow> addr_ok w c"
  by (simp add: ok_addr_def addr_ok_def addr_of_def)

lemma qcore_eqD:
  assumes "qcore w' = qcore w"
  shows "input_Q (hdata w') = input_Q (hdata w)" "disconnected_Q (hdata w') = disconnected_Q (hdata w)"
    "selecting (hdata w') = selecting (hdata w)" "connected (hdata w') = connected (hdata w)"
    "busy (hdata w') = busy (hdata w)" "host_scribble (cmds w' c) = host_scribble (cmds w c)"
    "device (cmds w' c) = device (cmds w c)" "dev_id (devs w' d) = dev_id (devs w d)"
    "dev_lun (devs w' d) = dev_lun (devs w d)" "filter is_done (events w') = filter is_done (events w)"
  using assms by (simp_all add: qcore_def fun_eq_iff)

lemma qcore_addr:
  assumes "qcore w' = qcore w"
  shows "addr_of w' c = addr_of w c" "addr_ok w' c = addr_ok w c"
  by (simp_all add: addr_of_def addr_ok_def qcore_eqD [OF assms])

lemma R_frame:
  assumes q: "qcore w' = qcore w" and r: "R A v B w"
  shows "R A v B w'"
proof -
  have "queue_of input_Q w' (v_in v)" "queue_of disconnected_Q w' (v_dis v)"
    using r by (auto simp: R_def qcore_eqD [OF q] intro: queue_of_frame)
  moreover have "addr_of w' = addr_of w"
    by (rule ext) (rule qcore_addr [OF q])
  ultimately show ?thesis using r by (simp add: R_def qcore_eqD [OF q])
qed

lemma io_free_qcore:
  assumes "io_free w' = io_free w"
  shows "qcore w' = qcore w"
  by (simp add: qcore_def io_free_eqD [OF assms])

lemma keeps_io_qcore: "keeps io_free m \<Longrightarrow> keeps qcore m"
  by (auto simp: keeps_def intro: io_free_qcore)

section \<open>How the pieces of the code change the view\<close>

lemma R_keeps: "keeps qcore m \<Longrightarrow> hoare (R A v B) m (\<lambda>_. R A v B)"
  by (auto simp: hoare_def keeps_def intro: R_frame)

lemma R_addr: "R A v B w \<Longrightarrow> addr_of w = A" "R A v B w \<Longrightarrow> length (busy (hdata w)) = 8"
  "R A v B w \<Longrightarrow> busy_set (busy (hdata w)) = B"
  by (simp_all add: R_def)

lemma addr_of_hdata [simp]: "addr_of (w\<lparr>hdata := h\<rparr>) = addr_of w"
  by (simp add: addr_of_def fun_eq_iff)

lemma queue_of_hdata: "g h = g (hdata w) \<Longrightarrow> queue_of g (w\<lparr>hdata := h\<rparr>) xs = queue_of g w xs"
  by (simp add: queue_of_def)

lemma R_busy: "R A v B w \<Longrightarrow> length b = 8 \<Longrightarrow> R A v (busy_set b) (w\<lparr>hdata := (hdata w)\<lparr>busy := b\<rparr>\<rparr>)"
  by (simp add: R_def queue_of_hdata)

lemma R_set_busy:
  assumes "ok_addr A c"
  shows "hoare (R A v B) (set_busy c) (\<lambda>_. R A v (insert (A c) B))"
proof (rule hoareI)
  fix w x w' assume r: "R A v B w" and m: "set_busy c w = Inr (x, w')"
  from r assms have ok: "addr_ok w c" by (simp add: R_addr(1) [OF r] ok_addr_of [symmetric])
  obtain b where b: "set_busy c w = Inr ((), w\<lparr>hdata := (hdata w)\<lparr>busy := b\<rparr>\<rparr>)" "length b = 8"
      "busy_set b = insert (addr_of w c) (busy_set (busy (hdata w)))"
    using set_busy_run [OF ok R_addr(2) [OF r]] by blast
  show "R A v (insert (A c) B) w'"
    using R_busy [OF r b(2)] b(1,3) m by (simp add: R_addr [OF r])
qed

lemma R_clear_busy:
  assumes "ok_addr A c"
  shows "hoare (R A v B) (clear_busy c) (\<lambda>_. R A v (B - {A c}))"
proof (rule hoareI)
  fix w x w' assume r: "R A v B w" and m: "clear_busy c w = Inr (x, w')"
  from r assms have ok: "addr_ok w c" by (simp add: R_addr(1) [OF r] ok_addr_of [symmetric])
  obtain b where b: "clear_busy c w = Inr ((), w\<lparr>hdata := (hdata w)\<lparr>busy := b\<rparr>\<rparr>)" "length b = 8"
      "busy_set b = busy_set (busy (hdata w)) - {addr_of w c}"
    using clear_busy_run [OF ok R_addr(2) [OF r]] by blast
  show "R A v (B - {A c}) w'"
    using R_busy [OF r b(2)] b(1,3) m by (simp add: R_addr [OF r])
qed

lemma R_selecting: "hoare (R A v B) (mod_hd (\<lambda>h. h\<lparr>selecting := p\<rparr>)) (\<lambda>_. R A (v\<lparr>v_sel := p\<rparr>) B)"
  unfolding mod_hd_def by (rule hoare_modify) (simp add: R_def queue_of_hdata)

lemma R_connected: "hoare (R A v B) (mod_hd (\<lambda>h. h\<lparr>connected := p\<rparr>)) (\<lambda>_. R A (v\<lparr>v_con := p\<rparr>) B)"
  unfolding mod_hd_def by (rule hoare_modify) (simp add: R_def queue_of_hdata)

lemma R_done: "hoare (R A v B) (emit (Scsi_done c)) (\<lambda>_. R A (v\<lparr>v_done := v_done v @ [c]\<rparr>) B)"
  unfolding emit_def
  by (rule hoare_modify) (auto simp: R_def addr_of_def queue_of_def fun_eq_iff)

lemma addr_of_push [simp]: "addr_of (push_q g u c w) = addr_of w"
  by (simp add: addr_of_def push_q_def fun_eq_iff)

lemma addr_of_unlink [simp]: "addr_of (unlink_q u p c w) = addr_of w"
  by (cases p) (simp_all add: addr_of_def unlink_q_def fun_eq_iff)

lemma R_push_in:
  "c \<notin> set (v_in v) \<Longrightarrow> c \<notin> set (v_dis v) \<Longrightarrow>
   hoare (R A v B) (modify (push_q input_Q input_Q_update c)) (\<lambda>_. R A (v\<lparr>v_in := c # v_in v\<rparr>) B)"
  by (rule hoare_modify)
    (simp add: R_def iq.push iq.push_other, simp add: push_q_def)

lemma R_push_dis:
  "c \<notin> set (v_in v) \<Longrightarrow> c \<notin> set (v_dis v) \<Longrightarrow>
   hoare (R A v B) (modify (push_q disconnected_Q disconnected_Q_update c))
     (\<lambda>_. R A (v\<lparr>v_dis := c # v_dis v\<rparr>) B)"
  by (rule hoare_modify)
    (simp add: R_def dq.push dq.push_other, simp add: push_q_def)

lemma unlink_sel:
  "selecting (hdata (unlink_q input_Q_update p c w)) = selecting (hdata w)"
  "connected (hdata (unlink_q input_Q_update p c w)) = connected (hdata w)"
  "busy (hdata (unlink_q input_Q_update p c w)) = busy (hdata w)"
  "selecting (hdata (unlink_q disconnected_Q_update p c w)) = selecting (hdata w)"
  "connected (hdata (unlink_q disconnected_Q_update p c w)) = connected (hdata w)"
  "busy (hdata (unlink_q disconnected_Q_update p c w)) = busy (hdata w)"
  "events (unlink_q u p c w) = events w"
  by (cases p; simp add: unlink_q_def)+

lemma R_unlink_in:
  assumes v: "v_in v = xs @ c # ys" and d: "set xs \<inter> set (v_dis v) = {}"
  shows "hoare (R A v B) (modify (unlink_q input_Q_update (last_opt xs) c)) (\<lambda>_. R A (v\<lparr>v_in := xs @ ys\<rparr>) B)"
proof (rule hoare_modify)
  fix w assume r: "R A v B w"
  then have "queue_of input_Q w (xs @ c # ys)" "queue_of disconnected_Q w (v_dis v)"
    by (simp_all add: R_def v [symmetric])
  from iq.unlink [OF this(1)] iq.unlink_other [OF this(2) d]
  show "R A (v\<lparr>v_in := xs @ ys\<rparr>) B (unlink_q input_Q_update (last_opt xs) c w)"
    using r by (simp add: R_def unlink_sel)
qed

lemma R_unlink_dis:
  assumes v: "v_dis v = xs @ c # ys" and d: "set xs \<inter> set (v_in v) = {}"
  shows "hoare (R A v B) (modify (unlink_q disconnected_Q_update (last_opt xs) c))
    (\<lambda>_. R A (v\<lparr>v_dis := xs @ ys\<rparr>) B)"
proof (rule hoare_modify)
  fix w assume r: "R A v B w"
  then have "queue_of disconnected_Q w (xs @ c # ys)" "queue_of input_Q w (v_in v)"
    by (simp_all add: R_def v [symmetric])
  from dq.unlink [OF this(1)] dq.unlink_other [OF this(2) d]
  show "R A (v\<lparr>v_dis := xs @ ys\<rparr>) B (unlink_q disconnected_Q_update (last_opt xs) c w)"
    using r by (simp add: R_def unlink_sel)
qed

end
