(* ===== verification/ExecLife.thy ===== *)
theory ExecLife
  imports CmdLife
begin

text \<open>
  Starting and accepting commands refine the abstract life of commands. \<open>dma_host\<close> is the
  interface between the chip driver and a host adapter's DMA operations; the lemmas about the
  chip driver are proved in it, once for every host adapter that keeps its laws.
\<close>

section \<open>The DMA interface\<close>

definition dma_free :: "world \<Rightarrow> world" where
  "dma_free w = (io_free w)\<lparr>mem := (\<lambda>_. 0),
     hdata := (hdata w)\<lparr>dma_dir := 0, dma_bounce_buffer := 0, dma_bounce_len := 0\<rparr>\<rparr>"

lemma dma_free_qcore:
  assumes "dma_free w' = dma_free w"
  shows "qcore w' = qcore w"
proof -
  have 1: "(hdata w')\<lparr>dma_dir := 0, dma_bounce_buffer := 0, dma_bounce_len := 0\<rparr> =
      (hdata w)\<lparr>dma_dir := 0, dma_bounce_buffer := 0, dma_bounce_len := 0\<rparr>"
    using arg_cong [OF assms, of hdata] by (simp add: dma_free_def)
  have "input_Q (hdata w') = input_Q (hdata w)" "disconnected_Q (hdata w') = disconnected_Q (hdata w)"
    "selecting (hdata w') = selecting (hdata w)" "connected (hdata w') = connected (hdata w)"
    "busy (hdata w') = busy (hdata w)"
    using arg_cong [OF 1, of input_Q] arg_cong [OF 1, of disconnected_Q] arg_cong [OF 1, of selecting]
      arg_cong [OF 1, of connected] arg_cong [OF 1, of busy] by simp_all
  moreover have "cmds w' = cmds w" "devs w' = devs w" "filter is_done (events w') = filter is_done (events w)"
    using arg_cong [OF assms, of cmds] arg_cong [OF assms, of devs]
      arg_cong [OF assms, of "\<lambda>w. filter is_done (events w)"] by (simp_all add: dma_free_def)
  ultimately show ?thesis by (simp add: qcore_def)
qed

lemma keeps_dma_qcore: "keeps dma_free m \<Longrightarrow> keeps qcore m"
  by (auto simp: keeps_def intro: dma_free_qcore)

text \<open>
  The client's view of the host adapter's two DMA operations: whatever they do to the outside, to
  the data buffers and to their own three fields of the host structure, they leave the rest of the
  driver's memory alone.
\<close>

locale dma_host =
  fixes e :: env
  assumes setup_free: "keeps dma_free (dma_setup e c dir)"
    and stop_free: "keeps dma_free (dma_stop e p status)"
begin

lemma setup_qcore: "keeps qcore (dma_setup e c dir)"
  by (rule keeps_dma_qcore [OF setup_free])

lemma stop_qcore: "keeps qcore (dma_stop e p status)"
  by (rule keeps_dma_qcore [OF stop_free])

end

section \<open>What leaves the queues alone\<close>

lemma qcore_hd:
  "input_Q h = input_Q (hdata w) \<Longrightarrow> disconnected_Q h = disconnected_Q (hdata w) \<Longrightarrow>
   selecting h = selecting (hdata w) \<Longrightarrow> connected h = connected (hdata w) \<Longrightarrow>
   busy h = busy (hdata w) \<Longrightarrow> qcore (w\<lparr>hdata := h\<rparr>) = qcore w"
  by (simp add: qcore_def)

lemma qcore_cmds:
  "(\<And>c. host_scribble (cs c) = host_scribble (cmds w c)) \<Longrightarrow>
   (\<And>c. device (cs c) = device (cmds w c)) \<Longrightarrow> qcore (w\<lparr>cmds := cs\<rparr>) = qcore w"
  by (simp add: qcore_def)

lemmas qcore_simps = qcore_hd qcore_cmds fun_eq_iff

lemma mark_phase_links:
  assumes "mark_phase p cs = Some cs'"
  shows "(\<lambda>c. (host_scribble (cs' c), device (cs' c))) = (\<lambda>c. (host_scribble (cs c), device (cs c)))"
  using assms
proof (induction p cs cs' rule: mark_phase.raw_induct [rotated, consumes 1])
  case (1 mp p cs cs')
  then show ?case
    by (auto simp: Let_def fun_eq_iff split: option.splits if_splits)
qed

lemma keeps_mark_queue: "keeps qcore (mark_queue p)"
  unfolding mark_queue_def keeps_def
  by (auto simp: run_simps fun_eq_iff intro!: qcore_cmds split: option.splits
      dest!: mark_phase_links)

lemma keeps_count_cmd: "keeps qcore (count_cmd c)"
  unfolding count_cmd_def by (auto intro!: keeps_intros qcore_hd)

lemma keeps_write_destination [keeps_intros]: "keeps io_free (write_destination c)"
  unfolding write_destination_def by (intro keeps_intros)

lemma keeps_allow_disconnect: "keeps qcore (allow_disconnect c)"
  unfolding allow_disconnect_def by (auto intro!: keeps_intros qcore_hd qcore_cmds)

lemma keeps_disconnect_policy: "keeps qcore (disconnect_policy c)"
  unfolding disconnect_policy_def
  by (auto intro!: keeps_intros keeps_allow_disconnect keeps_mark_queue qcore_cmds)

context dma_host begin

lemma prepare_data_qcore: "keeps qcore (prepare_data e c)"
  unfolding prepare_data_def
  by (auto intro!: keeps_intros setup_qcore keeps_io_qcore [OF keeps_write_count]
      keeps_io_qcore [OF keeps_write_wd33c93] qcore_hd)

end

section \<open>The promise of execute\<close>

text \<open>
  What \<^verbatim>\<open>wd33c93_execute\<close> promises: when the bus is in use, or every waiting command has
  another one outstanding for its target and lun, nothing happens; otherwise the first waiting
  command without such a rival is started.
\<close>

definition blocked :: "(cptr \<Rightarrow> nat \<times> nat) \<Rightarrow> cview \<Rightarrow> bool" where
  "blocked A v \<longleftrightarrow> v_sel v \<noteq> None \<or> v_con v \<noteq> None \<or> (\<forall>x \<in> set (v_in v). A x \<in> A ` set (outstanding v))"

definition starts :: "(cptr \<Rightarrow> nat \<times> nat) \<Rightarrow> cview \<Rightarrow> cview \<Rightarrow> bool" where
  "starts A v v' \<longleftrightarrow> v_sel v = None \<and> v_con v = None \<and>
     (\<exists>xs c ys. v_in v = xs @ c # ys \<and> A c \<notin> A ` set (outstanding v) \<and>
        (\<forall>x \<in> set xs. A x \<in> A ` set (outstanding v)) \<and>
        (v' = v\<lparr>v_in := xs @ ys, v_sel := Some c\<rparr> \<or> v' = v\<lparr>v_in := xs @ ys, v_con := Some c\<rparr>))"

definition exec_spec :: "(cptr \<Rightarrow> nat \<times> nat) \<Rightarrow> cview \<Rightarrow> cview \<Rightarrow> bool" where
  "exec_spec A v v' \<longleftrightarrow> (if blocked A v then v' = v else starts A v v')"

lemma starts_step: "starts A v v' \<Longrightarrow> c_step A v v'"
  by (auto simp: starts_def intro: start_selecting start_connected)

lemma exec_spec_steps: "exec_spec A v v' \<Longrightarrow> (c_step A)\<^sup>*\<^sup>* v v'"
  by (auto simp: exec_spec_def split: if_splits dest: starts_step)

lemma exec_spec_done: "exec_spec A v v' \<Longrightarrow> v_done v' = v_done v"
  by (auto simp: exec_spec_def starts_def split: if_splits)

text \<open>Afterwards nothing more can be started.\<close>

lemma exec_spec_blocked: "exec_spec A v v' \<Longrightarrow> blocked A v'"
  by (auto simp: exec_spec_def starts_def blocked_def split: if_splits)

lemma blocked_done [simp]: "blocked A (v\<lparr>v_done := d\<rparr>) = blocked A v"
  by (simp add: blocked_def outstanding_def)

text \<open>Completions do not matter to a start.\<close>

lemma exec_spec_frame:
  "exec_spec A v v' \<Longrightarrow> exec_spec A (v\<lparr>v_done := d\<rparr>) (v'\<lparr>v_done := d\<rparr>)"
  by (cases v) (auto simp: exec_spec_def starts_def blocked_def outstanding_def split: if_splits; blast)

section \<open>Starting a command\<close>

lemma R_peek: "(\<And>w0. hoare (R A v B) (f w0) Q) \<Longrightarrow> hoare (R A v B) (peek f) Q"
  unfolding hoare_def by (auto simp: peek_run)

lemma R_get:
  "(\<And>x. hoare (R A v B) (f x) Q) \<Longrightarrow> hoare (R A v B) (bnd (arr_get xs i) f) Q"
  by (rule hoare_bnd, rule R_keeps) (auto intro: keeps_intros)

lemma R_io_thn:
  "keeps io_free m \<Longrightarrow> hoare (R A v B) n Q \<Longrightarrow> hoare (R A v B) (thn m n) Q"
  by (rule hoare_thn, rule R_keeps) (auto intro: keeps_io_qcore)

lemma R_thn:
  "keeps qcore m \<Longrightarrow> hoare (R A v B) n Q \<Longrightarrow> hoare (R A v B) (thn m n) Q"
  by (rule hoare_thn, rule R_keeps) auto

lemma R_select_registers:
  assumes "ok_addr A c"
  shows "hoare (R A v B) (select_registers c) (\<lambda>_. R A v (insert (A c) B))"
  unfolding select_registers_def
  by (intro R_peek R_io_thn R_get keeps_intros R_set_busy assms)

lemma R_start_select: "hoare (R A v B) (start_select c) (\<lambda>_. R A (v\<lparr>v_sel := Some c\<rparr>) B)"
  unfolding start_select_def seqs.simps
  by (intro R_peek hoare_thn [OF R_selecting] R_thn keeps_intros keeps_io_qcore R_keeps)
    (auto intro!: qcore_hd)

context dma_host begin

lemma R_start_select_xfer:
  "hoare (R A v B) (start_select_xfer e c) (\<lambda>_. R A (v\<lparr>v_con := Some c\<rparr>) B)"
  unfolding start_select_xfer_def seqs.simps
  by (intro R_peek hoare_thn [OF R_connected] R_thn keeps_ret R_keeps prepare_data_qcore
      keeps_io_qcore [OF keeps_write_wd33c93] keeps_io_qcore [OF keeps_write_cdb]
      keeps_io_qcore [OF keeps_write_cmd] keeps_mod_hd)
    (auto intro!: qcore_hd)

lemma R_start_cmd:
  assumes "ok_addr A c"
  shows "hoare (R A v B) (start_cmd e c)
    (\<lambda>_ w. R A (v\<lparr>v_sel := Some c\<rparr>) (insert (A c) B) w \<or> R A (v\<lparr>v_con := Some c\<rparr>) (insert (A c) B) w)"
  unfolding start_cmd_def seqs.simps
  apply (rule R_thn [OF keeps_count_cmd])
  apply (rule R_thn [OF keeps_io_qcore [OF keeps_write_destination]])
  apply (rule R_thn [OF keeps_disconnect_policy])
  apply (rule hoare_thn [OF R_select_registers [OF assms]])
  apply (rule hoare_thn [where R = "\<lambda>w. R A (v\<lparr>v_sel := Some c\<rparr>) (insert (A c) B) w \<or>
      R A (v\<lparr>v_con := Some c\<rparr>) (insert (A c) B) w"])
   apply (intro R_peek R_get hoare_if)
    apply (rule hoare_post [OF R_start_select], simp)
   apply (rule hoare_post [OF R_start_select_xfer], simp)
  apply (rule hoare_ret, simp)
  done

text \<open>The search for a command to start, and what starting it does to the view.\<close>

lemma runnable_view:
  assumes "R A v B w" and "ok_addr A c"
  shows "runnable w c = Inr (A c \<notin> B)"
  using runnable_ok [of w c] assms by (simp add: R_def ok_addr_of [symmetric])

lemma start_refines:
  assumes v: "wf_view A v" and r: "REP A v w" and free: "v_sel v = None" "v_con v = None"
    and q: "v_in v = ys @ c # zs" and idle: "A c \<notin> A ` set (outstanding v)"
    and first: "\<forall>y \<in> set ys. \<not> A y \<notin> A ` set (outstanding v)"
    and m: "thn (modify (unlink_q input_Q_update (last_opt ys) c)) (start_cmd e c) w = Inr (x, w')"
  shows "\<exists>v'. exec_spec A v v' \<and> REP A v' w'"
proof -
  let ?B = "A ` set (outstanding v)" and ?v = "v\<lparr>v_in := ys @ zs\<rparr>"
  have rr: "R A v ?B w" and ok: "\<forall>c \<in> set (active v). ok_addr A c" using r by (auto simp: REP_def)
  have okc: "ok_addr A c" using ok q by (auto simp: active_def)
  have disj: "set ys \<inter> set (v_dis v) = {}" using v q by (auto simp: wf_view_def active_def outstanding_def)
  have h: "hoare (R A v ?B) (thn (modify (unlink_q input_Q_update (last_opt ys) c)) (start_cmd e c))
    (\<lambda>_ w. R A (?v\<lparr>v_sel := Some c\<rparr>) (insert (A c) ?B) w \<or> R A (?v\<lparr>v_con := Some c\<rparr>) (insert (A c) ?B) w)"
    by (rule hoare_thn [OF R_unlink_in [OF q disj] R_start_cmd [OF okc]])
  have "R A (?v\<lparr>v_sel := Some c\<rparr>) (insert (A c) ?B) w' \<or> R A (?v\<lparr>v_con := Some c\<rparr>) (insert (A c) ?B) w'"
    using hoareD [OF h m rr] .
  moreover have "REP A (?v\<lparr>v_sel := Some c\<rparr>) w'" if "R A (?v\<lparr>v_sel := Some c\<rparr>) (insert (A c) ?B) w'"
    using that free ok q by (auto simp: REP_def outstanding_def active_def)
  moreover have "REP A (?v\<lparr>v_con := Some c\<rparr>) w'" if "R A (?v\<lparr>v_con := Some c\<rparr>) (insert (A c) ?B) w'"
    using that free ok q by (auto simp: REP_def outstanding_def active_def)
  moreover have "starts A v (?v\<lparr>v_sel := Some c\<rparr>)" "starts A v (?v\<lparr>v_con := Some c\<rparr>)"
    using free q idle first by (auto simp: starts_def)
  moreover have "\<not> blocked A v" using free q idle by (auto simp: blocked_def)
  ultimately show ?thesis unfolding exec_spec_def by auto
qed

lemma execute_refines:
  assumes v: "wf_view A v"
  shows "hoare (REP A v) (wd33c93_execute e) (\<lambda>_ w. \<exists>v'. exec_spec A v v' \<and> REP A v' w)"
proof (rule hoareI)
  fix w x w' assume r: "REP A v w" and m: "wd33c93_execute e w = Inr (x, w')"
  let ?B = "A ` set (outstanding v)"
  have rr: "R A v ?B w" and ok: "\<forall>c \<in> set (active v). ok_addr A c"
    using r by (auto simp: REP_def)
  show "\<exists>v'. exec_spec A v v' \<and> REP A v' w'"
  proof (cases "selecting (hdata w) \<noteq> None \<or> connected (hdata w) \<noteq> None")
    case True
    then have "w' = w" using m by (simp add: wd33c93_execute_def run_simps)
    moreover have "blocked A v" using True rr by (auto simp: R_def blocked_def)
    ultimately show ?thesis using r by (auto simp: exec_spec_def)
  next
    case False
    then have free: "v_sel v = None" "v_con v = None" using rr by (auto simp: R_def)
    from False m obtain prev cur where
        s: "search (runnable w) (next_of w) (input_Q (hdata w)) = Inr (prev, cur)"
      and m': "(case cur of None \<Rightarrow> ret ()
            | Some c \<Rightarrow> thn (modify (unlink_q input_Q_update prev c)) (start_cmd e c)) w = Inr (x, w')"
      by (auto simp: wd33c93_execute_def run_simps split: sum.splits prod.splits)
    have q: "linked (next_of w) (input_Q (hdata w)) (v_in v)"
      using rr by (simp add: R_def queue_of_def)
    have st: "runnable w y = Inr (A y \<notin> ?B)" if "y \<in> set (v_in v)" for y
      using runnable_view [OF rr] that ok by (simp add: active_def)
    show ?thesis
    proof (rule search_linkedE [OF s q st], assumption)
      assume none: "cur = None" and no: "\<forall>y \<in> set (v_in v). \<not> A y \<notin> ?B"
      then have "w' = w" using m' by (simp add: run_simps)
      moreover have "blocked A v" using no by (simp add: blocked_def)
      ultimately show ?thesis using r by (auto simp: exec_spec_def)
    next
      fix c ys zs
      assume "cur = Some c" "v_in v = ys @ c # zs" "prev = last_opt ys" "A c \<notin> ?B"
        "\<forall>y \<in> set ys. \<not> A y \<notin> ?B"
      then show ?thesis using start_refines [OF v r free] m' by simp
    qed
  qed
qed

end

end
