(* ===== verification/WdTransfer.thy ===== *)
theory WdTransfer
  imports WdBus
begin

text \<open>
  Moving data (\<^verbatim>\<open>transfer_pio\<close> and \<^verbatim>\<open>transfer_bytes\<close> of \<^verbatim>\<open>wd33c93.c\<close>). The buffer
  pointer of programmed transfers can point into memory (the command's data), to the command
  descriptor block, or to the outgoing message; the last two are arrays, so going past their end
  is a fault. The polling loops recurse on the register values still to be delivered.
\<close>

section \<open>Programmed transfers\<close>

datatype pio_buf = Buf_mem u32 | Buf_cdb cptr | Buf_out

definition pio_load :: "pio_buf \<Rightarrow> nat \<Rightarrow> u8 drv" where
  "pio_load buf i = peek (\<lambda>w. case buf of
       Buf_mem p \<Rightarrow> ret (mem w (p + of_nat i))
     | Buf_cdb c \<Rightarrow> arr_get (cmnd (cmds w c)) i
     | Buf_out \<Rightarrow> arr_get (outgoing_msg (hdata w)) i)"

definition pio_store :: "pio_buf \<Rightarrow> nat \<Rightarrow> u8 \<Rightarrow> unit drv" where
  "pio_store buf i v = peek (\<lambda>w. case buf of
       Buf_mem p \<Rightarrow> modify (\<lambda>w. w\<lparr>mem := (mem w)(p + of_nat i := v)\<rparr>)
     | Buf_cdb c \<Rightarrow> thn (arr_ok (cmnd (cmds w c)) i) (mod_cmd c (\<lambda>k. k\<lparr>cmnd := (cmnd k)[i := v]\<rparr>))
     | Buf_out \<Rightarrow> thn (arr_ok (outgoing_msg (hdata w)) i)
                       (mod_hd (\<lambda>h. h\<lparr>outgoing_msg := (outgoing_msg h)[i := v]\<rparr>)))"

lemma pio_load_wd_in: "pio_load buf i w = Inr (x, w') \<Longrightarrow> w' = w"
  by (auto simp: pio_load_def run_simps split: pio_buf.splits if_splits)

lemma pio_store_wd_in: "pio_store buf i v w = Inr (x, w') \<Longrightarrow> wd_in w' = wd_in w"
  by (auto simp: pio_store_def run_simps split: pio_buf.splits if_splits)

text \<open>\<open>i\<close> is how far \<open>buf\<close> has advanced.\<close>

definition pio_move :: "bool \<Rightarrow> pio_buf \<Rightarrow> nat \<Rightarrow> unit drv" where
  "pio_move data_in buf i =
     (if data_in then bnd (read_wd33c93 WD_DATA) (\<lambda>v. pio_store buf i v)
      else bnd (pio_load buf i) (\<lambda>v. write_wd33c93 WD_DATA v))"

lemma write_wd33c93_wd_in: "write_wd33c93 r v w = Inr (x, w') \<Longrightarrow> wd_in w' = wd_in w"
  by (auto simp: write_wd33c93_def wr_SASR_def wr_SCMD_def run_simps)

lemma pio_move_shorter:
  "pio_move data_in buf i w = Inr (x, w') \<Longrightarrow> length (wd_in w') \<le> length (wd_in w)"
  by (auto simp: pio_move_def split: if_splits elim!: bnd_InrE
      dest!: read_wd33c93_shorter pio_store_wd_in write_wd33c93_wd_in pio_load_wd_in)

function pio_loop :: "bool \<Rightarrow> pio_buf \<Rightarrow> nat \<Rightarrow> unit drv" where
  "pio_loop data_in buf i w =
     (case read_aux_stat w of
        Inl f \<Rightarrow> Inl f
      | Inr (asr, w1) \<Rightarrow>
          (case (if bit_on asr ASR_DBR then pio_move data_in buf i w1 else Inr ((), w1)) of
             Inl f \<Rightarrow> Inl f
           | Inr (_, w2) \<Rightarrow>
               if bit_on asr ASR_INT then Inr ((), w2)
               else pio_loop data_in buf (if bit_on asr ASR_DBR then Suc i else i) w2))"
  by pat_completeness auto
termination
  by (relation "measure (\<lambda>(d, b, i, w). length (wd_in w))")
    (auto split: if_splits dest!: read_aux_stat_shorter pio_move_shorter)

declare pio_loop.simps [simp del]

definition transfer_pio :: "pio_buf \<Rightarrow> u32 \<Rightarrow> u32 \<Rightarrow> unit drv" where
  "transfer_pio buf cnt data_in_dir =
     seqs [write_wd33c93 WD_CONTROL (CTRL_IDI OR CTRL_EDI OR CTRL_POLLED),
           write_wd33c93_count cnt,
           write_wd33c93_cmd WD_CMD_TRANS_INFO,
           pio_loop (data_in_dir \<noteq> 0) buf 0]"

section \<open>Data phases\<close>

text \<open>\<open>SCp.buffer = sg_next(SCp.buffer)\<close> and the three assignments that follow.\<close>

definition next_sg :: "cptr \<Rightarrow> unit drv" where
  "next_sg c = peek (\<lambda>w. deref (SCp_buffer (cmds w c)) (\<lambda>i.
     if Suc i < length (sglist (cmds w c))
     then mod_cmd c (\<lambda>k. k\<lparr>SCp_buffer := Some (Suc i),
                           SCp_buffers_residual := SCp_buffers_residual k - 1,
                           SCp_this_residual := snd (sglist k ! Suc i),
                           SCp_ptr := fst (sglist k ! Suc i)\<rparr>)
     else throw Null_deref))"

text \<open>
  \<open>length = this_residual; this_residual = read_wd33c93_count(); ptr += length - this_residual;\<close>
\<close>

definition update_residual :: "cptr \<Rightarrow> unit drv" where
  "update_residual c = bnd read_wd33c93_count (\<lambda>n.
     mod_cmd c (\<lambda>k. k\<lparr>SCp_this_residual := n,
                      SCp_ptr := SCp_ptr k + (SCp_this_residual k - n)\<rparr>))"

definition pio_bytes :: "cptr \<Rightarrow> u32 \<Rightarrow> unit drv" where
  "pio_bytes c data_in_dir = peek (\<lambda>w.
     seqs [mod_hd (\<lambda>h. h\<lparr>pio_cnt := pio_cnt h + 1\<rparr>),
           transfer_pio (Buf_mem (SCp_ptr (cmds w c))) (SCp_this_residual (cmds w c)) data_in_dir,
           update_residual c])"

definition dma_bytes :: "cptr \<Rightarrow> unit drv" where
  "dma_bytes c =
     thn (mod_hd (\<lambda>h. h\<lparr>dma_cnt := dma_cnt h + 1\<rparr>))
    (peek (\<lambda>w.
       seqs [write_wd33c93 WD_CONTROL (CTRL_IDI OR CTRL_EDI OR dma_mode (hdata w)),
             write_wd33c93_count (SCp_this_residual (cmds w c)),
             (if level2 (hdata w) \<ge> L2_DATA \<or>
                 level2 (hdata w) = L2_BASIC \<and> SCp_phase (cmds w c) = 0
              then seqs [write_wd33c93 WD_COMMAND_PHASE 0x45,
                         write_wd33c93_cmd WD_CMD_SEL_ATN_XFER,
                         mod_hd (\<lambda>h. h\<lparr>state := S_RUNNING_LEVEL2\<rparr>)]
              else write_wd33c93_cmd WD_CMD_TRANS_INFO),
             mod_hd (\<lambda>h. h\<lparr>dma := D_DMA_RUNNING\<rparr>)]))"

definition transfer_bytes :: "env \<Rightarrow> cptr \<Rightarrow> u32 \<Rightarrow> unit drv" where
  "transfer_bytes e c data_in_dir =
     thn (peek (\<lambda>w. when_do (SCp_this_residual (cmds w c) = 0 \<and> SCp_buffers_residual (cmds w c) \<noteq> 0)
                      (next_sg c)))
    (peek (\<lambda>w.
       if SCp_this_residual (cmds w c) = 0 then ret ()
       else
         bnd (arr_get (sync_xfer (hdata w)) (id_of w c)) (\<lambda>s.
         thn (write_wd33c93 WD_SYNCHRONOUS_TRANSFER s)
        (bnd (if no_dma (hdata w) \<noteq> 0 then ret 1 else dma_setup e c data_in_dir) (\<lambda>use_pio.
           if use_pio \<noteq> 0 then pio_bytes c data_in_dir else dma_bytes c)))))"

end
