(* ===== verification/WdSync.thy ===== *)
theory WdSync
  imports WdTypes
begin

text \<open>
  Synchronous transfer parameters (\<^verbatim>\<open>wd33c93.c\<close>): the table of transfer periods computed from
  the input clock, the rounding of a requested period to a table entry, and the two conversions
  between a period and offset and the register value respectively the SDTR message bytes.
  The lemmas show that every clock the driver can choose gives a well-formed table, that rounding
  is then always in bounds and picks the least sufficient period, and what the register value
  holds.
\<close>

section \<open>The code\<close>

text \<open>The loop of \<^verbatim>\<open>round_period\<close>, from index \<open>x\<close> on.\<close>

function round_period_from :: "u32 \<Rightarrow> sx_period list \<Rightarrow> nat \<Rightarrow> fault + nat" where
  "round_period_from period t x =
     (if length t \<le> x then Inl Out_of_bounds
      else if period_ns (t ! x) = 0 then Inr 7
      else if period \<le> period_ns (t ! x) \<and> period > period_ns (t ! (x - 1)) then Inr x
      else round_period_from period t (Suc x))"
  by pat_completeness auto
termination
  by (relation "measure (\<lambda>(p, t, x). length t - x)") auto

declare round_period_from.simps [simp del]

definition round_period :: "u32 \<Rightarrow> sx_period list \<Rightarrow> fault + nat" where
  "round_period period t = round_period_from period t 1"

definition calc_sync_xfer :: "u32 \<Rightarrow> u32 \<Rightarrow> u32 \<Rightarrow> sx_period list \<Rightarrow> fault + u8" where
  "calc_sync_xfer period offset is_fast t =
     (let (fss, period) = (if offset \<noteq> 0 \<and> is_fast \<noteq> 0 then (STR_FSS, period * 2) else (0, period));
          period = period * 4
      in case round_period period t of
           Inl f \<Rightarrow> Inl f
         | Inr x \<Rightarrow>
             if length t \<le> x then Inl Out_of_bounds
             else Inr (reg_value (t ! x)
                       OR ucast (if offset < OPTIMUM_SX_OFF then offset else OPTIMUM_SX_OFF)
                       OR fss))"

definition calc_sync_msg :: "u32 \<Rightarrow> u32 \<Rightarrow> u32 \<Rightarrow> u8 \<times> u8" where
  "calc_sync_msg period offset is_fast =
     (let period = period div 4;
          period = (if offset \<noteq> 0 \<and> is_fast \<noteq> 0 then period div 2 else period)
      in (ucast period, ucast offset))"

definition round_4 :: "u32 \<Rightarrow> u32" where
  "round_4 x = (if x AND 3 = 1 then x - 1
                else if x AND 3 = 2 then x + 2
                else if x AND 3 = 3 then x + 1
                else x)"

definition calc_sx_table :: "u32 \<Rightarrow> fault + sx_period list" where
  "calc_sx_table mhz =
     (if mhz = 0 then Inl Div_by_zero
      else
        let d = (if mhz < 11 then 2 else if mhz < 16 then 3 else 4);
            d = (100000 * d) div 2 div mhz;
            period = (\<lambda>i. round_4 ((of_nat i + 1) * d div 100))
        in Inr ([\<lparr>period_ns = 1, reg_value = 0x20\<rparr>]
                @ map (\<lambda>i. \<lparr>period_ns = period i, reg_value = (of_nat i + 1) * 0x10\<rparr>) [1..<7]
                @ [\<lparr>period_ns = period 7, reg_value = 0\<rparr>, \<lparr>period_ns = 0, reg_value = 0\<rparr>]))"

text \<open>\<open>set_clk_freq freq\<close> returns the register bits and the frequency stored through \<open>mhz\<close>.\<close>

definition set_clk_freq :: "int \<Rightarrow> u8 \<times> int" where
  "set_clk_freq freq =
     (if freq = uint WD33C93_FS_8_10 then (WD33C93_FS_8_10, 8)
      else if freq = uint WD33C93_FS_12_15 then (WD33C93_FS_12_15, 12)
      else if freq = uint WD33C93_FS_16_20 then (WD33C93_FS_16_20, 16)
      else if freq > 7 \<and> freq < 11 then (WD33C93_FS_8_10, freq)
      else if freq > 11 \<and> freq < 16 then (WD33C93_FS_12_15, freq)
      else if freq > 15 \<and> freq < 21 then (WD33C93_FS_16_20, freq)
      else (WD33C93_FS_8_10, 8))"

definition set_resync :: "u32 \<Rightarrow> hostdata \<Rightarrow> hostdata" where
  "set_resync msk h = h\<lparr>sync_stat :=
     map (\<lambda>i. if i < 8 \<and> bit_on msk (push_bit i 1) then SS_UNSET else sync_stat h ! i)
       [0..<length (sync_stat h)]\<rparr>"

section \<open>Well-formed tables\<close>

text \<open>
  Nine entries; a sentinel of 1 ns below, a terminating 0 above, and strictly increasing periods
  that are multiples of 4 ns in between.
\<close>

definition sx_ok :: "sx_period list \<Rightarrow> bool" where
  "sx_ok t \<longleftrightarrow>
     length t = 9 \<and> period_ns (t ! 0) = 1 \<and> period_ns (t ! 8) = 0 \<and>
     list_all (\<lambda>i. period_ns (t ! (i - 1)) + 8 \<le> period_ns (t ! i) \<and> period_ns (t ! i) \<le> 1016 \<and>
                   period_ns (t ! i) AND 3 = 0 \<and>
                   reg_value (t ! i) = ((of_nat i + 1) * 0x10) AND 0x70)
       [1..<8]"

lemma sx_okD:
  assumes "sx_ok t"
  shows "length t = 9" "period_ns (t ! 0) = 1" "period_ns (t ! 8) = 0"
    "\<And>i. 1 \<le> i \<Longrightarrow> i \<le> 7 \<Longrightarrow> period_ns (t ! (i - 1)) + 8 \<le> period_ns (t ! i)"
    "\<And>i. 1 \<le> i \<Longrightarrow> i \<le> 7 \<Longrightarrow> reg_value (t ! i) = ((of_nat i + 1) * 0x10) AND 0x70"
    "\<And>i. 1 \<le> i \<Longrightarrow> i \<le> 7 \<Longrightarrow> period_ns (t ! i) AND 3 = 0"
    "\<And>i. 1 \<le> i \<Longrightarrow> i \<le> 7 \<Longrightarrow> period_ns (t ! i) \<le> 1016"
  using assms by (auto simp: sx_ok_def list_all_iff)

lemma sx_ok_le: "sx_ok t \<Longrightarrow> i \<le> 7 \<Longrightarrow> unat (period_ns (t ! i)) \<le> 1016"
  by (cases "i = 0") (auto simp: sx_okD(2) word_le_nat_alt dest: sx_okD(7) [of t i])

lemma sx_ok_gap:
  assumes "sx_ok t" and "1 \<le> i" and "i \<le> 7"
  shows "unat (period_ns (t ! (i - 1))) + 8 \<le> unat (period_ns (t ! i))"
proof -
  have "unat (period_ns (t ! (i - 1))) \<le> 1016"
    using assms by (intro sx_ok_le) auto
  then have "unat (period_ns (t ! (i - 1)) + 8) = unat (period_ns (t ! (i - 1))) + 8"
    by (subst unat_word_ariths) simp
  then show ?thesis using sx_okD(4) [OF assms] by (simp add: word_le_nat_alt)
qed

lemma sx_ok_less: "sx_ok t \<Longrightarrow> 1 \<le> i \<Longrightarrow> i \<le> 7 \<Longrightarrow> period_ns (t ! (i - 1)) < period_ns (t ! i)"
  using sx_ok_gap [of t i] by (simp add: word_less_nat_alt)

lemma sx_ok_clocks:
  assumes "m \<in> {8, 9, 10, 12, 13, 14, 15, 16, 17, 18, 19, 20}"
  shows "\<exists>t. calc_sx_table m = Inr t \<and> sx_ok t"
proof -
  have "case calc_sx_table m of Inl _ \<Rightarrow> False | Inr t \<Rightarrow> sx_ok t"
    if "m \<in> set [8, 9, 10, 12, 13, 14, 15, 16, 17, 18, 19, 20]" for m
  proof -
    have "list_all (\<lambda>m. case calc_sx_table m of Inl _ \<Rightarrow> False | Inr t \<Rightarrow> sx_ok t)
            [8, 9, 10, 12, 13, 14, 15, 16, 17, 18, 19, 20]"
      by code_simp
    then show ?thesis using that unfolding list_all_iff by blast
  qed
  then have "case calc_sx_table m of Inl _ \<Rightarrow> False | Inr t \<Rightarrow> sx_ok t"
    using assms by simp
  then show ?thesis by (auto split: sum.splits)
qed

section \<open>Rounding a period\<close>

lemma sx_ok_mono:
  assumes "sx_ok t" and "j \<le> i" and "i \<le> 7"
  shows "period_ns (t ! j) \<le> period_ns (t ! i)"
  using assms(2,3)
proof (induction i)
  case (Suc i)
  then show ?case
    using sx_ok_less [OF assms(1), of "Suc i"] by (cases "j = Suc i") auto
qed simp

lemma sx_ok_pos: "sx_ok t \<Longrightarrow> i \<le> 7 \<Longrightarrow> period_ns (t ! i) \<noteq> 0"
  using sx_ok_mono [of t 0 i] sx_okD(2) [of t] by fastforce

lemma round_period_from_found:
  assumes "sx_ok t" and "period_ns (t ! (i - 1)) < p" and "p \<le> period_ns (t ! i)"
    and "1 \<le> x" and "x \<le> i" and "i \<le> 7"
  shows "round_period_from p t x = Inr i"
  using assms
proof (induction p t x rule: round_period_from.induct)
  case (1 p t x)
  show ?case
  proof (cases "x = i")
    case True
    with "1.prems" sx_ok_pos [of t i] sx_okD(1) [of t] show ?thesis
      by (simp add: round_period_from.simps [of p t i])
  next
    case False
    with "1.prems" have "\<not> p \<le> period_ns (t ! x)"
      using sx_ok_mono [of t x "i - 1"] by force
    moreover have "round_period_from p t (Suc x) = Inr i"
      using False "1.prems" \<open>\<not> p \<le> _\<close> sx_ok_pos [of t x] sx_okD(1) [of t] by (intro "1.IH") auto
    ultimately show ?thesis
      using "1.prems" sx_ok_pos [of t x] sx_okD(1) [of t]
      by (simp add: round_period_from.simps [of p t x])
  qed
qed

lemma round_period_from_none:
  assumes "sx_ok t" and "p \<le> 1 \<or> period_ns (t ! 7) < p" and "1 \<le> x" and "x \<le> 8"
  shows "round_period_from p t x = Inr 7"
  using assms
proof (induction p t x rule: round_period_from.induct)
  case (1 p t x)
  show ?case
  proof (cases "x = 8")
    case True
    with "1.prems" sx_okD(1,3) [of t] show ?thesis
      by (simp add: round_period_from.simps [of p t 8])
  next
    case False
    with "1.prems" have x: "x \<le> 7" by simp
    have miss: "\<not> (p \<le> period_ns (t ! x) \<and> period_ns (t ! (x - 1)) < p)"
      using "1.prems" sx_ok_mono [of t x 7] sx_ok_mono [of t 0 "x - 1"] sx_okD(2) [of t] x by force
    moreover have "round_period_from p t (Suc x) = Inr 7"
      using "1.prems" miss x sx_ok_pos [of t x] sx_okD(1) [of t] by (intro "1.IH") auto
    ultimately show ?thesis
      using "1.prems" x sx_ok_pos [of t x] sx_okD(1) [of t]
      by (auto simp: round_period_from.simps [of p t x])
  qed
qed

lemma round_period_found:
  assumes "sx_ok t" and "1 \<le> i" and "i \<le> 7" and "period_ns (t ! (i - 1)) < p" and "p \<le> period_ns (t ! i)"
  shows "round_period p t = Inr i"
  using assms by (simp add: round_period_def round_period_from_found)

lemma round_period_none:
  "sx_ok t \<Longrightarrow> p \<le> 1 \<or> period_ns (t ! 7) < p \<Longrightarrow> round_period p t = Inr 7"
  by (simp add: round_period_def round_period_from_none)

lemma sx_bracket:
  assumes "sx_ok t" and "1 < p" and "p \<le> period_ns (t ! i)" and "i \<le> 7"
  obtains j where "1 \<le> j" and "j \<le> i" and "period_ns (t ! (j - 1)) < p" and "p \<le> period_ns (t ! j)"
  using assms(3,4)
proof (induction i arbitrary: thesis)
  case 0
  with assms(1,2) show ?case by (auto dest: sx_okD(2))
next
  case (Suc i)
  show ?case
  proof (cases "p \<le> period_ns (t ! i)")
    case True
    with Suc.prems Suc.IH show ?thesis by (metis Suc_leD le_SucI)
  next
    case False
    with Suc.prems show ?thesis by (metis Suc_le_mono diff_Suc_1 le0 le_refl not_le One_nat_def)
  qed
qed

lemma round_period_least:
  assumes "sx_ok t"
  shows "\<exists>x. round_period p t = Inr x \<and> 1 \<le> x \<and> x \<le> 7 \<and>
    (if 1 < p \<and> p \<le> period_ns (t ! 7)
     then p \<le> period_ns (t ! x) \<and> (\<forall>j. j < x \<longrightarrow> period_ns (t ! j) < p)
     else x = 7)"
proof (cases "1 < p \<and> p \<le> period_ns (t ! 7)")
  case True
  then obtain j where j: "1 \<le> j" "j \<le> 7" "period_ns (t ! (j - 1)) < p" "p \<le> period_ns (t ! j)"
    using sx_bracket [OF assms, of p 7] by auto
  moreover have "period_ns (t ! i) < p" if "i < j" for i
    using sx_ok_mono [OF assms, of i "j - 1"] that j by force
  ultimately show ?thesis
    using True round_period_found [OF assms j] by auto
next
  case False
  then have "round_period p t = Inr 7"
    by (intro round_period_none [OF assms]) (auto simp: not_less not_le)
  with False show ?thesis by auto
qed

section \<open>The register value\<close>

lemma low_high_fields:
  fixes v os f :: u8
  assumes "v AND 0x8f = 0" and "os AND 0xf0 = 0" and "f AND 0x7f = 0"
  shows "(v OR os OR f) AND 0x0f = os" and "(v OR os OR f) AND 0x70 = v"
    and "(v OR os OR f) AND 0x80 = f"
  by (simp_all add: and_or3 and_zero_sub [OF assms(1)] and_zero_sub [OF assms(2)] and_zero_sub [OF assms(3)]
     and_zero_id [OF assms(1)] and_zero_id [OF assms(2)] and_zero_id [OF assms(3)])

lemma min_offset_low: "(ucast (min off 12) :: u8) AND 0xf0 = 0" for off :: u32
proof -
  have "list_all (\<lambda>n. (ucast (of_nat n :: u32) :: u8) AND 0xf0 = 0) [0..<13]"
    by code_simp
  moreover have "unat (min off 12) < 13"
    by (simp add: min_def word_le_nat_alt)
  ultimately have "(ucast (of_nat (unat (min off 12)) :: u32) :: u8) AND 0xf0 = 0"
    unfolding list_all_iff set_upt by (meson atLeastLessThan_iff le0)
  then show ?thesis by simp
qed

lemma calc_sync_xfer_fields:
  assumes "sx_ok t"
  shows "\<exists>x r. 1 \<le> x \<and> x \<le> 7 \<and>
     round_period ((if offset \<noteq> 0 \<and> is_fast \<noteq> 0 then period * 2 else period) * 4) t = Inr x \<and>
     calc_sync_xfer period offset is_fast t = Inr r \<and>
     r AND 0x0f = ucast (min offset 12) \<and> r AND 0x70 = reg_value (t ! x) \<and>
     (r AND 0x80 = 0x80 \<longleftrightarrow> offset \<noteq> 0 \<and> is_fast \<noteq> 0)"
proof -
  let ?p = "(if offset \<noteq> 0 \<and> is_fast \<noteq> 0 then period * 2 else period) * 4"
  let ?f = "(if offset \<noteq> 0 \<and> is_fast \<noteq> 0 then 0x80 else 0) :: u8"
  let ?o = "ucast (min offset 12) :: u8"
  obtain x where x: "round_period ?p t = Inr x" "1 \<le> x" "x \<le> 7"
    using round_period_least [OF assms, of ?p] by auto
  have o: "(if offset < 12 then offset else 12) = min offset 12" by (auto simp: min_def)
  let ?r = "reg_value (t ! x) OR ?o OR ?f"
  have r: "calc_sync_xfer period offset is_fast t = Inr ?r"
    using x sx_okD(1) [OF assms] by (auto simp: calc_sync_xfer_def Let_def o)
  have v: "reg_value (t ! x) AND 0x8f = 0"
    unfolding sx_okD(5) [OF assms x(2,3)] by (simp add: and.assoc)
  have "?f AND 0x7f = 0" by simp
  note f = low_high_fields [OF v min_offset_low [of offset] this]
  show ?thesis
    by (intro exI [of _ x] exI [of _ ?r] conjI r x f) (simp only: f, simp)
qed

lemma echo_slow:
  assumes "p AND 3 = 0" and "unat p \<le> 1016"
  shows "ucast (ucast (p div 4) :: u8) * 4 = (p :: u32)"
proof (rule word_unat_eq_iff [THEN iffD2])
  have "unat (ucast (ucast (p div 4) :: u8) :: u32) = unat p div 4"
    using assms(2) by (simp add: unat_div_u32)
  then have "unat (ucast (ucast (p div 4) :: u8) * 4 :: u32) = unat p div 4 * 4"
    using assms(2) by (subst unat_word_ariths) simp
  then show "unat (ucast (ucast (p div 4) :: u8) * 4 :: u32) = unat p"
    using word_and3_mod [OF assms(1)] by presburger
qed

lemma echo_fast:
  fixes p :: u32
  assumes "unat p \<le> 1016"
  shows "unat (8 * ucast (ucast (p div 4 div 2) :: u8) :: u32) = unat p div 8 * 8"
proof -
  have "unat (ucast (ucast (p div 4 div 2) :: u8) :: u32) = unat p div 8"
    using assms by (simp add: unat_div_u32 div_mult2_eq [symmetric])
  then show ?thesis
    using assms by (simp add: unat_word_ariths)
qed

lemma set_clk_freq_range:
  "snd (set_clk_freq freq) \<in> set [8, 9, 10, 12, 13, 14, 15, 16, 17, 18, 19, 20]"
  unfolding set_clk_freq_def by (simp, presburger)

section \<open>Properties\<close>

text \<open>
  C26. Whatever clock number the driver is given (on the command line or by the host adapter),
  \<^verbatim>\<open>set_clk_freq\<close> settles on one of the three legal divisor settings and on a frequency for which
  \<^verbatim>\<open>calc_sx_table\<close> does not divide by zero and fills a well-formed table: nine entries, strictly
  increasing periods at least 8 ns apart, all multiples of 4 that fit the SDTR byte, the register
  code of each period in its upper nibble, and a shortest period between 200 and 252 ns.
\<close>
theorem set_clk_freq_sound:
  "case set_clk_freq freq of (fs, mhz) \<Rightarrow>
     fs \<in> {WD33C93_FS_8_10, WD33C93_FS_12_15, WD33C93_FS_16_20} \<and>
     (\<exists>t. calc_sx_table (word_of_int mhz) = Inr t \<and> sx_ok t \<and>
          200 \<le> period_ns (t ! 1) \<and> period_ns (t ! 1) \<le> 252)"
proof -
  have "list_all (\<lambda>m. case calc_sx_table (word_of_int m) of Inl _ \<Rightarrow> False
          | Inr t \<Rightarrow> sx_ok t \<and> period_ns (t ! 1) \<ge> 200 \<and> period_ns (t ! 1) \<le> 252)
          [8, 9, 10, 12, 13, 14, 15, 16, 17, 18, 19, 20]"
    by code_simp
  then have "case calc_sx_table (word_of_int (snd (set_clk_freq freq))) of Inl _ \<Rightarrow> False
          | Inr t \<Rightarrow> sx_ok t \<and> period_ns (t ! 1) \<ge> 200 \<and> period_ns (t ! 1) \<le> 252"
    using set_clk_freq_range [of freq] unfolding list_all_iff by blast
  moreover have "fst (set_clk_freq freq) \<in> {WD33C93_FS_8_10, WD33C93_FS_12_15, WD33C93_FS_16_20}"
    by (simp add: set_clk_freq_def)
  ultimately show ?thesis by (auto split: sum.splits prod.splits)
qed

text \<open>
  C27. On a well-formed table \<^verbatim>\<open>calc_sync_xfer\<close> never indexes out of bounds. The register value
  it returns holds the offset, capped at the 12 bytes of the chip's FIFO, in its low nibble, the
  code of table entry \<open>x\<close> in bits 4 to 6, and the fast-SCSI bit exactly for a fast synchronous
  transfer; \<open>x\<close> is the first entry that is no shorter than the requested period, and 7 when no
  entry is.
\<close>
theorem sync_xfer_encodes:
  assumes "sx_ok t"
  shows "\<exists>x r. calc_sync_xfer period offset is_fast t = Inr r \<and> 1 \<le> x \<and> x \<le> 7 \<and>
     r AND 0x0f = ucast (min offset 12) \<and> r AND 0x70 = reg_value (t ! x) \<and>
     (r AND 0x80 = 0x80 \<longleftrightarrow> offset \<noteq> 0 \<and> is_fast \<noteq> 0) \<and>
     (let ns = (if offset \<noteq> 0 \<and> is_fast \<noteq> 0 then period * 2 else period) * 4
      in if 1 < ns \<and> ns \<le> period_ns (t ! 7)
         then ns \<le> period_ns (t ! x) \<and> (\<forall>j. j < x \<longrightarrow> period_ns (t ! j) < ns)
         else x = 7)"
proof -
  let ?ns = "(if offset \<noteq> 0 \<and> is_fast \<noteq> 0 then period * 2 else period) * 4"
  obtain x r where "round_period ?ns t = Inr x" and "1 \<le> x" "x \<le> 7"
    and "calc_sync_xfer period offset is_fast t = Inr r" "r AND 0x0f = ucast (min offset 12)"
    "r AND 0x70 = reg_value (t ! x)" "r AND 0x80 = 0x80 \<longleftrightarrow> offset \<noteq> 0 \<and> is_fast \<noteq> 0"
    using calc_sync_xfer_fields [OF assms, of offset is_fast period] by blast
  then show ?thesis
    using round_period_least [OF assms, of ?ns] unfolding Let_def
    by (intro exI [of _ x] exI [of _ r]) auto
qed

theorem sync_xfer_encodes_witness:
  "\<exists>t x r. calc_sx_table 16 = Inr t \<and> sx_ok t \<and> calc_sync_xfer 50 15 1 t = Inr r \<and>
     r AND 0x0f = ucast (min (15 :: u32) 12) \<and> r AND 0x70 = reg_value (t ! x)"
proof -
  obtain t where t: "calc_sx_table 16 = Inr t" "sx_ok t"
    using sx_ok_clocks [of 16] by auto
  show ?thesis
    using t(1) t(2) sync_xfer_encodes [OF t(2), of 50 15 1] by blast
qed

text \<open>
  C28. Negotiation round trip. The driver offers a table period and an offset in an SDTR message;
  a target that agrees sends the same two bytes back; the register value computed from the echo
  is that period's own code with that offset, in slow and in fast mode alike. No precision is
  lost in the bytes.
\<close>
theorem sync_negotiation_roundtrip:
  assumes t: "sx_ok t" and i: "1 \<le> i" "i \<le> 7" and o: "1 \<le> offset" "offset \<le> 12"
  shows "case calc_sync_msg (period_ns (t ! i)) offset is_fast of (m3, m4) \<Rightarrow>
           calc_sync_xfer (ucast m3) (ucast m4) is_fast t =
             Inr (reg_value (t ! i) OR ucast offset OR (if is_fast \<noteq> 0 then STR_FSS else 0))"
proof -
  let ?p = "period_ns (t ! i)"
  have le: "unat ?p \<le> 1016" using sx_ok_le [OF t i(2)] .
  have o32: "ucast (ucast offset :: u8) = offset"
    using o by (simp add: word_unat_eq_iff word_le_nat_alt)
  have o0: "offset \<noteq> 0" using o by auto
  have o12: "offset = 12" if "\<not> offset < 12" using o that by auto
  have len: "length t = 9" using sx_okD(1) [OF t] .
  show ?thesis
  proof (cases "is_fast = 0")
    case True
    have "round_period (ucast (ucast (?p div 4) :: u8) * 4) t = Inr i"
      using round_period_found [OF t i sx_ok_less [OF t i]] echo_slow [OF sx_okD(6) [OF t i] le] by simp
    then show ?thesis
      using True len i by (auto simp: calc_sync_msg_def calc_sync_xfer_def o32 o12)
  next
    case False
    let ?q = "ucast (ucast (?p div 4 div 2) :: u8) * 2 * 4 :: u32"
    have "unat (period_ns (t ! (i - 1))) < unat ?p div 8 * 8" and "unat ?p div 8 * 8 \<le> unat ?p"
      using sx_ok_gap [OF t i] by auto
    then have "round_period ?q t = Inr i"
      by (intro round_period_found [OF t i]) (simp_all add: word_less_nat_alt word_le_nat_alt echo_fast [OF le])
    then show ?thesis
      using False len i o0 by (auto simp: calc_sync_msg_def calc_sync_xfer_def o32 o12)
  qed
qed

theorem sync_negotiation_roundtrip_witness:
  "\<exists>t. calc_sx_table 12 = Inr t \<and> sx_ok t \<and>
     (case calc_sync_msg (period_ns (t ! 1)) 12 0 of (m3, m4) \<Rightarrow>
        calc_sync_xfer (ucast m3) (ucast m4) 0 t = Inr (reg_value (t ! 1) OR 12))"
proof -
  obtain t where t: "calc_sx_table 12 = Inr t" "sx_ok t"
    using sx_ok_clocks [of 12] by auto
  show ?thesis
    using t sync_negotiation_roundtrip [OF t(2), of 1 12 0] by (auto split: prod.splits)
qed

text \<open>
  C40. \<^verbatim>\<open>round_4\<close> rounds to a nearest multiple of 4 (for arguments whose successor multiple still
  fits the machine word).
\<close>
theorem round_4_nearest:
  assumes "x \<le> 0xfffffffd"
  shows "round_4 x AND 3 = 0 \<and> \<bar>uint (round_4 x) - uint x\<bar> \<le> 2"
proof -
  have x: "unat x \<le> 0xfffffffd" using assms by (simp add: word_le_nat_alt)
  have r: "unat (round_4 x) = (if unat x mod 4 = 1 then unat x - 1 else if unat x mod 4 = 2 then unat x + 2
      else if unat x mod 4 = 3 then unat x + 1 else unat x)"
  proof -
    have "unat (x - 1) = unat x - 1" if "unat x mod 4 = 1"
      using that by (intro unat_minus_one) (auto simp: word_unat_eq_iff)
    moreover have "unat (x + 2) = unat x + 2" if "unat x mod 4 = 2"
      using that x by (subst unat_word_ariths) simp
    moreover have "unat (x + 1) = unat x + 1"
      using x by (subst unat_word_ariths) simp
    ultimately show ?thesis by (simp add: round_4_def and3_eq)
  qed
  then have "unat (round_4 x) mod 4 = 0" and "\<bar>int (unat (round_4 x)) - int (unat x)\<bar> \<le> 2"
    by (auto split: if_splits) presburger+
  then show ?thesis by (simp add: and3_eq)
qed

theorem round_4_nearest_witness:
  "(253 :: u32) \<le> 0xfffffffd \<and> round_4 253 AND 3 = 0 \<and> \<bar>uint (round_4 253) - uint (253 :: u32)\<bar> \<le> 2"
  using round_4_nearest [of 253] by simp

end
