(* ===== verification/WdIntr.thy ===== *)
theory WdIntr
  imports WdExec WdTransfer WdSync
begin

text \<open>
  The interrupt handler \<^verbatim>\<open>wd33c93_intr\<close>: one definition per \<open>case\<close> of its \<open>switch\<close> on the
  chip's status, in the order of the source, and the dispatcher. Each case releases
  \<open>hostdata->lock\<close> itself, as the source does; \<open>cmd\<close> is the connected command at entry, which may
  be NULL.
\<close>

section \<open>Ending a command\<close>

definition set_result :: "env \<Rightarrow> cptr \<Rightarrow> unit drv" where
  "set_result e c = peek (\<lambda>w.
     bnd (arr_get (cmnd (cmds w c)) 0) (\<lambda>op.
       if op = REQUEST_SENSE \<and> SCp_Status (cmds w c) \<noteq> SAM_STAT_GOOD
       then mod_cmd c (\<lambda>k. k\<lparr>result := set_host_byte e (result k) (DID_ERROR e)\<rparr>)
       else seqs [mod_cmd c (\<lambda>k. k\<lparr>result := set_host_byte e (result k) (DID_OK e)\<rparr>),
                  mod_cmd c (\<lambda>k. k\<lparr>result := scsi_msg_to_host_byte e (result k) (SCp_Message k)\<rparr>),
                  mod_cmd c (\<lambda>k. k\<lparr>result := set_status_byte e (result k) (SCp_Status k)\<rparr>)]))"

text \<open>\<open>connected = NULL\<close>, the busy bit, the state.\<close>

definition drop_connected :: "cptr \<Rightarrow> unit drv" where
  "drop_connected c =
     seqs [mod_hd (\<lambda>h. h\<lparr>connected := None\<rparr>), clear_busy c,
           mod_hd (\<lambda>h. h\<lparr>state := S_UNCONNECTED\<rparr>)]"

section \<open>Selection\<close>

definition intr_timeout :: "env \<Rightarrow> cptr option \<Rightarrow> unit drv" where
  "intr_timeout e cmd = peek (\<lambda>w.
     bnd (if state (hdata w) = S_RUNNING_LEVEL2
          then thn (mod_hd (\<lambda>h. h\<lparr>connected := None\<rparr>)) (ret cmd)
          else thn (mod_hd (\<lambda>h. h\<lparr>selecting := None\<rparr>)) (ret (selecting (hdata w)))) (\<lambda>p.
     deref p (\<lambda>c.
       seqs [mod_cmd c (\<lambda>k. k\<lparr>result := push_bit 16 (DID_NO_CONNECT e)\<rparr>),
             clear_busy c,
             mod_hd (\<lambda>h. h\<lparr>state := S_UNCONNECTED\<rparr>),
             emit (Scsi_done c),
             spin_unlock,
             wd33c93_execute e])))"

text \<open>Bytes stored one after the other into \<open>outgoing_msg\<close>.\<close>

fun put_out :: "nat \<Rightarrow> u8 list \<Rightarrow> unit drv" where
  "put_out i [] = ret ()"
| "put_out i (v # vs) =
     thn (peek (\<lambda>w. arr_ok (outgoing_msg (hdata w)) i))
    (thn (mod_hd (\<lambda>h. h\<lparr>outgoing_msg := (outgoing_msg h)[i := v]\<rparr>))
         (put_out (Suc i) vs))"

definition set_outgoing_len :: "nat \<Rightarrow> unit drv" where
  "set_outgoing_len n = mod_hd (\<lambda>h. h\<lparr>outgoing_len := n\<rparr>)"

definition set_state :: "run_state \<Rightarrow> unit drv" where
  "set_state s = mod_hd (\<lambda>h. h\<lparr>state := s\<rparr>)"

definition set_sync_stat :: "nat \<Rightarrow> sync_status \<Rightarrow> unit drv" where
  "set_sync_stat t s = mod_hd (\<lambda>h. h\<lparr>sync_stat := (sync_stat h)[t := s]\<rparr>)"

definition identify_msg :: "u64 \<Rightarrow> bool \<Rightarrow> u8" where
  "identify_msg lun disc = IDENTIFY_BASE OR ucast (lun AND 7) OR (if disc then 0x40 else 0)"

text \<open>The SDTR message offered after the first selection of a target.\<close>

definition offer_sync :: "nat \<Rightarrow> unit drv" where
  "offer_sync t = peek (\<lambda>w.
     bnd (if bit_on (ucast (no_sync (hdata w)) :: u32) (push_bit t 1)
          then ret (calc_sync_msg (default_sx_per (hdata w)) 0 0)
          else bnd (arr_get (sx_table (hdata w)) 1) (\<lambda>p.
                 ret (calc_sync_msg (period_ns p) OPTIMUM_SX_OFF (ucast (fast (hdata w)))))) (\<lambda>(m3, m4).
     seqs [put_out 1 [EXTENDED_MESSAGE, 3, EXTENDED_SDTR, m3, m4], set_outgoing_len 6]))"

definition intr_select :: "unit drv" where
  "intr_select = peek (\<lambda>w.
     seqs [mod_hd (\<lambda>h. h\<lparr>connected := selecting h\<rparr>),
           mod_hd (\<lambda>h. h\<lparr>selecting := None\<rparr>),
           deref (selecting (hdata w)) (\<lambda>c.
             seqs [put_out 0 [identify_msg (dev_lun (dev_of w c)) (SCp_phase (cmds w c) \<noteq> 0)],
                   bnd (arr_get (sync_stat (hdata w)) (id_of w c)) (\<lambda>s.
                     if s = SS_FIRST
                     then thn (set_sync_stat (id_of w c) SS_WAITING) (offer_sync (id_of w c))
                     else set_outgoing_len 1)]),
           set_state S_CONNECTED,
           spin_unlock])"

section \<open>Information transfer phases\<close>

definition intr_data :: "env \<Rightarrow> cptr option \<Rightarrow> u32 \<Rightarrow> unit drv" where
  "intr_data e cmd dir =
     seqs [deref cmd (\<lambda>c. transfer_bytes e c dir),
           peek (\<lambda>w. when_do (state (hdata w) \<noteq> S_RUNNING_LEVEL2) (set_state S_CONNECTED)),
           spin_unlock]"

definition intr_command :: "cptr option \<Rightarrow> unit drv" where
  "intr_command cmd =
     seqs [deref cmd (\<lambda>c. peek (\<lambda>w.
             transfer_pio (Buf_cdb c) (ucast (cmd_len (cmds w c))) DATA_OUT_DIR)),
           set_state S_CONNECTED,
           spin_unlock]"

definition intr_status :: "cptr option \<Rightarrow> unit drv" where
  "intr_status cmd = bnd read_1_byte (\<lambda>st. deref cmd (\<lambda>c.
     seqs [mod_cmd c (\<lambda>k. k\<lparr>SCp_Status := ucast st\<rparr>),
           peek (\<lambda>w. if level2 (hdata w) \<ge> L2_BASIC
             then bnd (read_wd33c93 WD_SCSI_STATUS) (\<lambda>_.
                    seqs [set_state S_RUNNING_LEVEL2,
                          write_wd33c93 WD_COMMAND_PHASE 0x50,
                          write_wd33c93_cmd WD_CMD_SEL_ATN_XFER])
             else set_state S_CONNECTED),
           spin_unlock]))"

section \<open>Message in\<close>

definition negate_ack :: "run_state \<Rightarrow> unit drv" where
  "negate_ack s = thn (write_wd33c93_cmd WD_CMD_NEGATE_ACK) (set_state s)"

definition msg_restore :: "unit drv" where
  "msg_restore = peek (\<lambda>w.
     if level2 (hdata w) \<ge> L2_BASIC
     then seqs [write_wd33c93 WD_COMMAND_PHASE 0x45, write_wd33c93_cmd WD_CMD_SEL_ATN_XFER,
                set_state S_RUNNING_LEVEL2]
     else negate_ack S_CONNECTED)"

definition msg_reject :: "cptr \<Rightarrow> unit drv" where
  "msg_reject c = peek (\<lambda>w.
     thn (bnd (arr_get (sync_stat (hdata w)) (id_of w c)) (\<lambda>s.
       when_do (s = SS_WAITING)
         (seqs [set_sync_stat (id_of w c) SS_SET,
                bnd (lift (calc_sync_xfer (default_sx_per (hdata w) div 4) 0 0 (sx_table (hdata w)))) (\<lambda>x.
                thn (arr_ok (sync_xfer (hdata w)) (id_of w c))
                    (mod_hd (\<lambda>h. h\<lparr>sync_xfer := (sync_xfer h)[id_of w c := x]\<rparr>)))])))
     (negate_ack S_CONNECTED))"

text \<open>The answer to an SDTR message that was not asked for: a FIFO depth of 0.\<close>

definition answer_async :: "unit drv" where
  "answer_async = peek (\<lambda>w. case calc_sync_msg (default_sx_per (hdata w)) 0 0 of (m3, m4) \<Rightarrow>
     seqs [write_wd33c93_cmd WD_CMD_ASSERT_ATN,
           put_out 0 [EXTENDED_MESSAGE, 3, EXTENDED_SDTR, m3, m4],
           set_outgoing_len 5])"

definition ext_sdtr :: "cptr \<Rightarrow> unit drv" where
  "ext_sdtr c = peek (\<lambda>w.
     let h = hdata w; ucp = incoming_msg h in
     bnd (lift (calc_sync_xfer (default_sx_per h div 4) 0 0 (sx_table h))) (\<lambda>async.
     bnd (arr_get (sync_stat h) (id_of w c)) (\<lambda>s.
     bnd (if s \<noteq> SS_WAITING then thn answer_async (ret async)
          else bnd (arr_get ucp 3) (\<lambda>m3. bnd (arr_get ucp 4) (\<lambda>m4.
            if m4 \<noteq> 0 then lift (calc_sync_xfer (ucast m3) (ucast m4) (ucast (fast h)) (sx_table h))
            else if m3 \<noteq> 0 then lift (calc_sync_xfer (ucast m3) (ucast m4) 0 (sx_table h))
            else ret async))) (\<lambda>x.
     thn (arr_ok (sync_xfer h) (id_of w c))
         (seqs [mod_hd (\<lambda>h. h\<lparr>sync_xfer := (sync_xfer h)[id_of w c := x]\<rparr>),
                set_sync_stat (id_of w c) SS_SET,
                negate_ack S_CONNECTED])))))"

definition ext_wdtr :: "unit drv" where
  "ext_wdtr =
     seqs [write_wd33c93_cmd WD_CMD_ASSERT_ATN,
           put_out 0 [EXTENDED_MESSAGE, 2, EXTENDED_WDTR, 0],
           set_outgoing_len 4,
           negate_ack S_CONNECTED]"

definition reject_msg :: "unit drv" where
  "reject_msg =
     seqs [write_wd33c93_cmd WD_CMD_ASSERT_ATN,
           put_out 0 [MESSAGE_REJECT],
           set_outgoing_len 1,
           negate_ack S_CONNECTED]"

definition msg_extended :: "cptr \<Rightarrow> unit drv" where
  "msg_extended c = peek (\<lambda>w.
     let h = hdata w; ucp = incoming_msg h; n = incoming_ptr h in
     bnd (if n \<ge> 2 then bnd (arr_get ucp 1) (\<lambda>len. ret (n = unat len + 1)) else ret False) (\<lambda>last.
     if last
     then bnd (arr_get ucp 2) (\<lambda>code.
            thn (if code = EXTENDED_SDTR then ext_sdtr c
                 else if code = EXTENDED_WDTR then ext_wdtr
                 else reject_msg)
                (mod_hd (\<lambda>h. h\<lparr>incoming_ptr := 0\<rparr>)))
     else thn (mod_hd (\<lambda>h. h\<lparr>incoming_ptr := incoming_ptr h + 1\<rparr>)) (negate_ack S_CONNECTED)))"

text \<open>The byte goes to \<open>incoming_msg[incoming_ptr]\<close>; the result is the message to act on.\<close>

definition store_msg :: "u8 \<Rightarrow> u8 drv" where
  "store_msg msg = peek (\<lambda>w.
     thn (arr_ok (incoming_msg (hdata w)) (incoming_ptr (hdata w)))
    (thn (mod_hd (\<lambda>h. h\<lparr>incoming_msg := (incoming_msg h)[incoming_ptr h := msg]\<rparr>))
    (peek (\<lambda>w. bnd (arr_get (incoming_msg (hdata w)) 0) (\<lambda>m0.
       if m0 = EXTENDED_MESSAGE then ret EXTENDED_MESSAGE
       else thn (mod_hd (\<lambda>h. h\<lparr>incoming_ptr := 0\<rparr>)) (ret msg))))))"

definition handle_msg :: "cptr \<Rightarrow> u8 \<Rightarrow> unit drv" where
  "handle_msg c msg =
     (if msg = COMMAND_COMPLETE then negate_ack S_PRE_CMP_DISC
      else if msg = SAVE_POINTERS then negate_ack S_CONNECTED
      else if msg = RESTORE_POINTERS then msg_restore
      else if msg = DISCONNECT
      then peek (\<lambda>w. thn (mod_dev (device (cmds w c)) (\<lambda>d. d\<lparr>dev_disconnect := True\<rparr>))
                          (negate_ack S_PRE_TMP_DISC))
      else if msg = MESSAGE_REJECT then msg_reject c
      else if msg = EXTENDED_MESSAGE then msg_extended c
      else reject_msg)"

definition intr_mess_in :: "cptr option \<Rightarrow> unit drv" where
  "intr_mess_in cmd =
     bnd read_1_byte (\<lambda>m.
     bnd (read_wd33c93 WD_SCSI_STATUS) (\<lambda>_.
     bnd (store_msg m) (\<lambda>msg.
     deref cmd (\<lambda>c.
       seqs [mod_cmd c (\<lambda>k. k\<lparr>SCp_Message := ucast msg\<rparr>),
             handle_msg c msg,
             spin_unlock]))))"

section \<open>Completion\<close>

definition intr_sel_xfer_done :: "env \<Rightarrow> cptr option \<Rightarrow> u8 \<Rightarrow> unit drv" where
  "intr_sel_xfer_done e cmd phs =
     thn (write_wd33c93 WD_SOURCE_ID SRCID_ER)
    (if phs = 0x60
     then deref cmd (\<lambda>c.
       thn (mod_cmd c (\<lambda>k. k\<lparr>SCp_Message := ucast COMMAND_COMPLETE\<rparr>))
      (bnd (read_wd33c93 WD_TARGET_LUN) (\<lambda>lun.
         seqs [drop_connected c,
               mod_cmd c (\<lambda>k. if SCp_Status k = ILLEGAL_STATUS_BYTE then k\<lparr>SCp_Status := ucast lun\<rparr> else k),
               set_result e c,
               emit (Scsi_done c),
               spin_unlock,
               wd33c93_execute e])))
     else spin_unlock)"

definition intr_sdp :: "unit drv" where
  "intr_sdp =
     seqs [set_state S_RUNNING_LEVEL2,
           write_wd33c93 WD_COMMAND_PHASE 0x41,
           write_wd33c93_cmd WD_CMD_SEL_ATN_XFER,
           spin_unlock]"

definition intr_mess_out :: "unit drv" where
  "intr_mess_out =
     seqs [peek (\<lambda>w. when_do (outgoing_len (hdata w) = 0)
             (thn (set_outgoing_len 1) (put_out 0 [NOP]))),
           peek (\<lambda>w. transfer_pio Buf_out (of_nat (outgoing_len (hdata w))) DATA_OUT_DIR),
           set_outgoing_len 0,
           set_state S_CONNECTED,
           spin_unlock]"

section \<open>Disconnection\<close>

definition intr_unexp_disc :: "env \<Rightarrow> cptr option \<Rightarrow> unit drv" where
  "intr_unexp_disc e cmd =
     thn (write_wd33c93 WD_SOURCE_ID SRCID_ER)
    (case cmd of
       None \<Rightarrow> thn (set_state S_UNCONNECTED) spin_unlock
     | Some c \<Rightarrow>
         seqs [drop_connected c, set_result e c, emit (Scsi_done c), spin_unlock, wd33c93_execute e])"

text \<open>The target lets go of the bus and will reselect.\<close>

definition park :: "cptr \<Rightarrow> unit drv" where
  "park c =
     seqs [modify (push_q disconnected_Q disconnected_Q_update c),
           mod_hd (\<lambda>h. h\<lparr>connected := None\<rparr>),
           set_state S_UNCONNECTED,
           peek (\<lambda>w. bnd (arr_get (disc_done_cnt (hdata w)) (id_of w c)) (\<lambda>n.
             mod_hd (\<lambda>h. h\<lparr>disc_done_cnt := (disc_done_cnt h)[id_of w c := n + 1]\<rparr>)))]"

definition intr_disc :: "env \<Rightarrow> cptr option \<Rightarrow> unit drv" where
  "intr_disc e cmd =
     seqs [write_wd33c93 WD_SOURCE_ID SRCID_ER,
           when_do (cmd = None) (set_state S_UNCONNECTED),
           peek (\<lambda>w. case state (hdata w) of
               S_PRE_CMP_DISC \<Rightarrow> deref cmd (\<lambda>c.
                 seqs [drop_connected c, set_result e c, emit (Scsi_done c)])
             | S_PRE_TMP_DISC \<Rightarrow> deref cmd park
             | S_RUNNING_LEVEL2 \<Rightarrow> deref cmd park
             | _ \<Rightarrow> set_state S_UNCONNECTED),
           spin_unlock,
           wd33c93_execute e]"

section \<open>Reselection\<close>

text \<open>A command that lost arbitration goes back to the head of the input queue.\<close>

definition requeue :: "cptr \<Rightarrow> unit drv" where
  "requeue c = thn (clear_busy c) (modify (push_q input_Q input_Q_update c))"

definition resel_conflict :: "cptr option \<Rightarrow> u8 \<Rightarrow> unit drv" where
  "resel_conflict cmd phs = peek (\<lambda>w.
     if level2 (hdata w) \<le> L2_NONE
     then (case selecting (hdata w) of
             None \<Rightarrow> ret ()
           | Some c \<Rightarrow> thn (mod_hd (\<lambda>h. h\<lparr>selecting := None\<rparr>)) (requeue c))
     else (case cmd of
             None \<Rightarrow> ret ()
           | Some c \<Rightarrow> if phs = 0x00 then requeue c else throw Hang))"

text \<open>\<open>for (lun = 255; lun; lun--)\<close>: the last auxiliary status read.\<close>

fun wait_int :: "nat \<Rightarrow> u8 \<Rightarrow> u8 drv" where
  "wait_int 0 asr = ret asr"
| "wait_int (Suc n) asr = bnd read_aux_stat (\<lambda>a. if bit_on a ASR_INT then ret a else wait_int n a)"

definition resel_lun_old :: "u8 \<Rightarrow> u8 drv" where
  "resel_lun_old asr =
     bnd (wait_int 255 asr) (\<lambda>asr.
     if \<not> bit_on asr ASR_INT then ret 0
     else bnd (read_wd33c93 WD_SCSI_STATUS) (\<lambda>sr.
       if sr = CSR_ABORT OR PHS_MESS_IN \<or> sr = CSR_UNEXP OR PHS_MESS_IN \<or> sr = CSR_SRV_REQ OR PHS_MESS_IN
       then bnd read_1_byte (\<lambda>lun.
            bnd read_aux_stat (\<lambda>asr.
            thn (when_do (\<not> bit_on asr ASR_INT) (bnd read_aux_stat (\<lambda>_. ret ())))
           (bnd (read_wd33c93 WD_SCSI_STATUS) (\<lambda>_.
            thn (write_wd33c93_cmd WD_CMD_NEGATE_ACK)
                (ret (lun AND 7))))))
       else ret 0))"

definition resel_lun :: "u8 \<Rightarrow> u8 \<Rightarrow> u8 drv" where
  "resel_lun asr sr =
     (if sr = CSR_RESEL_AM
      then bnd (read_wd33c93 WD_DATA) (\<lambda>lun. peek (\<lambda>w.
             thn (when_do (level2 (hdata w) < L2_RESELECT) (write_wd33c93_cmd WD_CMD_NEGATE_ACK))
                 (ret (lun AND 7))))
      else resel_lun_old asr)"

definition resel_match :: "world \<Rightarrow> u8 \<Rightarrow> u8 \<Rightarrow> cptr \<Rightarrow> fault + bool" where
  "resel_match w src lun c = Inr (ucast src = dev_id (dev_of w c) \<and> lun = ucast (dev_lun (dev_of w c)))"

definition resume :: "cptr \<Rightarrow> unit drv" where
  "resume c =
     seqs [write_destination c,
           peek (\<lambda>w. if level2 (hdata w) \<ge> L2_RESELECT
             then seqs [write_wd33c93_count 0,
                        write_wd33c93 WD_COMMAND_PHASE 0x45,
                        write_wd33c93_cmd WD_CMD_SEL_ATN_XFER,
                        set_state S_RUNNING_LEVEL2]
             else set_state S_CONNECTED)]"

text \<open>Find the command and reconnect it.\<close>

definition reconnect :: "u8 \<Rightarrow> u8 \<Rightarrow> unit drv" where
  "reconnect src lun = peek (\<lambda>w.
     bnd (lift (search (resel_match w src lun) (next_of w) (disconnected_Q (hdata w))))
       (\<lambda>(patch, found).
       case found of
         None \<Rightarrow> spin_unlock
       | Some c \<Rightarrow>
           seqs [modify (unlink_q disconnected_Q_update patch c),
                 mod_hd (\<lambda>h. h\<lparr>connected := Some c\<rparr>),
                 resume c,
                 spin_unlock]))"

definition intr_resel :: "cptr option \<Rightarrow> u8 \<Rightarrow> u8 \<Rightarrow> u8 \<Rightarrow> unit drv" where
  "intr_resel cmd asr sr phs =
     thn (resel_conflict cmd phs)
    (bnd (read_wd33c93 WD_SOURCE_ID) (\<lambda>src.
     bnd (resel_lun asr sr) (\<lambda>lun. reconnect (src AND SRCID_MASK) lun)))"

section \<open>The handler\<close>

definition phase_int :: "u8 \<Rightarrow> u8 \<Rightarrow> bool" where
  "phase_int sr phs \<longleftrightarrow> sr = CSR_XFER_DONE OR phs \<or> sr = CSR_UNEXP OR phs \<or> sr = CSR_SRV_REQ OR phs"

definition intr_dispatch :: "env \<Rightarrow> u8 \<Rightarrow> u8 \<Rightarrow> u8 \<Rightarrow> cptr option \<Rightarrow> unit drv" where
  "intr_dispatch e asr sr phs cmd =
     (if sr = CSR_TIMEOUT then intr_timeout e cmd
      else if sr = CSR_SELECT then intr_select
      else if phase_int sr PHS_DATA_IN then intr_data e cmd DATA_IN_DIR
      else if phase_int sr PHS_DATA_OUT then intr_data e cmd DATA_OUT_DIR
      else if phase_int sr PHS_COMMAND then intr_command cmd
      else if phase_int sr PHS_STATUS then intr_status cmd
      else if phase_int sr PHS_MESS_IN then intr_mess_in cmd
      else if sr = CSR_SEL_XFER_DONE then intr_sel_xfer_done e cmd phs
      else if sr = CSR_SDP then intr_sdp
      else if phase_int sr PHS_MESS_OUT then intr_mess_out
      else if sr = CSR_UNEXP_DISC then intr_unexp_disc e cmd
      else if sr = CSR_DISC then intr_disc e cmd
      else if sr = CSR_RESEL_AM \<or> sr = CSR_RESEL then intr_resel cmd asr sr phs
      else spin_unlock)"

text \<open>A running DMA is stopped first and the residual taken from the transfer counter.\<close>

definition stop_transfer :: "env \<Rightarrow> cptr option \<Rightarrow> unit drv" where
  "stop_transfer e cmd = peek (\<lambda>w. when_do (dma (hdata w) = D_DMA_RUNNING)
     (deref cmd (\<lambda>c.
        seqs [dma_stop e (Some c) 1,
              mod_hd (\<lambda>h. h\<lparr>dma := D_DMA_OFF\<rparr>),
              update_residual c])))"

definition wd33c93_intr :: "env \<Rightarrow> unit drv" where
  "wd33c93_intr e = bnd read_aux_stat (\<lambda>asr.
     if \<not> bit_on asr ASR_INT \<or> bit_on asr ASR_BSY then ret ()
     else
       thn spin_lock
      (thn (mod_hd (\<lambda>h. h\<lparr>int_cnt := int_cnt h + 1\<rparr>))
      (peek (\<lambda>w.
         bnd (read_wd33c93 WD_SCSI_STATUS) (\<lambda>sr.
         bnd (read_wd33c93 WD_COMMAND_PHASE) (\<lambda>phs.
         thn (stop_transfer e (connected (hdata w)))
             (intr_dispatch e asr sr phs (connected (hdata w)))))))))"

end
