(* ===== verification/IntrLife.thy ===== *)
theory IntrLife
  imports ExecLife WdIntr
begin

text \<open>
  The interrupt handler refines the abstract life of commands: the cases that move data or
  exchange messages do not touch the queues; the others make one move of the abstract machine,
  possibly followed by the start of another command.
\<close>

section \<open>Cases that leave the queues alone\<close>

named_theorems qk "a program leaves the queues alone"

lemmas [qk] = keeps_ret keeps_throw keeps_bnd keeps_thn keeps_peek keeps_if keeps_when
  keeps_arr_get keeps_arr_ok keeps_lift keeps_deref keeps_option keeps_prod

lemmas [qk] = keeps_io_qcore [OF keeps_write_wd33c93] keeps_io_qcore [OF keeps_write_cmd]
  keeps_io_qcore [OF keeps_write_count] keeps_io_qcore [OF keeps_read_wd33c93]
  keeps_io_qcore [OF keeps_read_count] keeps_io_qcore [OF keeps_read_1_byte]
  keeps_io_qcore [OF io_keeps(5)] keeps_io_qcore [OF keeps_write_destination]

lemma keeps_hd_qcore [qk]:
  assumes "\<And>h. input_Q (f h) = input_Q h" "\<And>h. disconnected_Q (f h) = disconnected_Q h"
    "\<And>h. selecting (f h) = selecting h" "\<And>h. connected (f h) = connected h" "\<And>h. busy (f h) = busy h"
  shows "keeps qcore (mod_hd f)"
  by (rule keeps_mod_hd, rule qcore_hd) (simp_all add: assms)

lemma keeps_cmd_qcore [qk]:
  assumes "\<And>k. host_scribble (f k) = host_scribble k" "\<And>k. device (f k) = device k"
  shows "keeps qcore (mod_cmd c f)"
  by (rule keeps_mod_cmd, rule qcore_cmds) (simp_all add: assms)

lemma keeps_dev_qcore [qk]:
  assumes "\<And>d. dev_id (f d) = dev_id d" "\<And>d. dev_lun (f d) = dev_lun d"
  shows "keeps qcore (mod_dev d f)"
  by (rule keeps_mod_dev) (simp add: qcore_def fun_eq_iff assms)

lemma keeps_locks [qk]: "keeps qcore spin_lock" "keeps qcore spin_unlock"
  unfolding spin_lock_def spin_unlock_def by (intro qk; simp)+

lemma keeps_seqs_Nil [qk]: "keeps f (seqs [])"
  by (simp add: keeps_ret)

lemma keeps_seqs_Cons [qk]: "keeps f m \<Longrightarrow> keeps f (seqs ms) \<Longrightarrow> keeps f (seqs (m # ms))"
  by (simp add: keeps_thn)

lemma keeps_pio_load [qk]: "keeps qcore (pio_load b i)"
  unfolding pio_load_def by (intro qk) (cases b; simp add: keeps_ret keeps_arr_get)

lemma keeps_pio_store [qk]: "keeps qcore (pio_store b i v)"
  unfolding pio_store_def
  by (rule keeps_peek) (cases b; auto intro!: qk keeps_modify simp: qcore_def)

lemma keeps_pio_move [qk]: "keeps qcore (pio_move d b i)"
  unfolding pio_move_def by (intro qk)

lemma keeps_pio_loop [qk]: "keeps qcore (pio_loop d b i)"
proof (rule keepsI)
  fix w v w'
  show "pio_loop d b i w = Inr (v, w') \<Longrightarrow> qcore w' = qcore w"
  proof (induction d b i w arbitrary: v w' rule: pio_loop.induct)
    case (1 d b i w)
    show ?case
      using "1.prems" "1.IH"
      by (subst (asm) pio_loop.simps)
        (auto split: sum.splits if_splits prod.splits
          dest!: keepsD [OF keeps_io_qcore [OF io_keeps(5)]] keepsD [OF keeps_pio_move])
  qed
qed

lemma keeps_transfer_pio [qk]: "keeps qcore (transfer_pio b n d)"
  unfolding transfer_pio_def by (intro qk)

lemma keeps_next_sg [qk]: "keeps qcore (next_sg c)"
  unfolding next_sg_def by (intro qk; simp)

lemma keeps_update_residual [qk]: "keeps qcore (update_residual c)"
  unfolding update_residual_def by (intro qk; simp)

lemma keeps_pio_bytes [qk]: "keeps qcore (pio_bytes c d)"
  unfolding pio_bytes_def by (intro qk; simp)

lemma keeps_dma_bytes [qk]: "keeps qcore (dma_bytes c)"
  unfolding dma_bytes_def by (intro qk; simp)

lemma keeps_small [qk]: "keeps qcore (set_state s)" "keeps qcore (set_outgoing_len n)"
  "keeps qcore (set_sync_stat t ss)"
  unfolding set_state_def set_outgoing_len_def set_sync_stat_def by (intro qk; simp)+

lemma keeps_put_out [qk]: "keeps qcore (put_out i vs)"
  by (induction i vs rule: put_out.induct) (auto intro!: qk)

lemma keeps_offer_sync [qk]: "keeps qcore (offer_sync t)"
  unfolding offer_sync_def by (intro qk)

lemma keeps_negate_ack [qk]: "keeps qcore (negate_ack s)"
  unfolding negate_ack_def by (intro qk)

lemma keeps_messages [qk]: "keeps qcore msg_restore" "keeps qcore (msg_reject c)" "keeps qcore answer_async"
  "keeps qcore ext_wdtr" "keeps qcore reject_msg" "keeps qcore (store_msg m)"
  unfolding msg_restore_def msg_reject_def answer_async_def ext_wdtr_def reject_msg_def store_msg_def
  by (intro qk; simp)+

lemma keeps_ext_sdtr [qk]: "keeps qcore (ext_sdtr c)"
  unfolding ext_sdtr_def Let_def by (intro qk; simp)

lemma keeps_extended [qk]: "keeps qcore (msg_extended c)"
  unfolding msg_extended_def Let_def by (intro qk; simp)

lemma keeps_handle_msg [qk]: "keeps qcore (handle_msg c m)"
  unfolding handle_msg_def by (intro qk; simp)

lemma keeps_phase_cases [qk]: "keeps qcore (intr_command cmd)" "keeps qcore (intr_status cmd)"
  "keeps qcore (intr_mess_in cmd)" "keeps qcore intr_sdp" "keeps qcore intr_mess_out"
  unfolding intr_command_def intr_status_def intr_mess_in_def intr_sdp_def intr_mess_out_def
  by (intro qk; simp)+

lemma keeps_set_result [qk]: "keeps qcore (set_result e c)"
  unfolding set_result_def by (intro qk; simp)

lemma keeps_wait_int [qk]: "keeps qcore (wait_int n a)"
  by (induction n arbitrary: a) (auto intro!: qk)

lemma keeps_resel_lun [qk]: "keeps qcore (resel_lun a s)"
  unfolding resel_lun_def resel_lun_old_def by (intro qk)

lemma keeps_resume [qk]: "keeps qcore (resume c)"
  unfolding resume_def by (intro qk)

context dma_host begin

lemma keeps_transfer_bytes: "keeps qcore (transfer_bytes e c d)"
  unfolding transfer_bytes_def by (intro qk setup_qcore)

lemma keeps_intr_data: "keeps qcore (intr_data e cmd d)"
  unfolding intr_data_def by (intro qk keeps_transfer_bytes)

lemma keeps_stop_transfer: "keeps qcore (stop_transfer e cmd)"
  unfolding stop_transfer_def by (intro qk stop_qcore; simp)

end

section \<open>The refinement judgement\<close>

definition refines :: "bool \<Rightarrow> (cptr \<Rightarrow> nat \<times> nat) \<Rightarrow> cview \<Rightarrow> 'a drv \<Rightarrow> bool" where
  "refines b A v m \<longleftrightarrow>
     hoare (REP A v) m (\<lambda>_ w. \<exists>v'. (c_step A)\<^sup>*\<^sup>* v v' \<and> wf_view A v' \<and> REP A v' w \<and> (b \<longrightarrow> blocked A v'))"

lemma refinesD:
  assumes "refines b A v m" and "REP A v w" and "m w = Inr (x, w')"
  obtains v' where "(c_step A)\<^sup>*\<^sup>* v v'" and "wf_view A v'" and "REP A v' w'" and "b \<longrightarrow> blocked A v'"
  using assms unfolding refines_def hoare_def by blast

lemma REP_keeps: "keeps qcore m \<Longrightarrow> hoare (REP A v) m (\<lambda>_. REP A v)"
  by (auto simp: hoare_def keeps_def REP_def intro: R_frame)

lemma REP_keepsD: "keeps qcore m \<Longrightarrow> m w = Inr (x, w') \<Longrightarrow> REP A v w \<Longrightarrow> REP A v w'"
  using REP_keeps [of m A v] by (simp add: hoare_def)

lemma refines_keeps: "keeps qcore m \<Longrightarrow> wf_view A v \<Longrightarrow> (b \<Longrightarrow> blocked A v) \<Longrightarrow> refines b A v m"
  unfolding refines_def using REP_keeps [of m A v] by (auto simp: hoare_def)

lemma refines_bnd:
  assumes "refines b' A v m"
    and "\<And>x v'. (c_step A)\<^sup>*\<^sup>* v v' \<Longrightarrow> wf_view A v' \<Longrightarrow> (b' \<Longrightarrow> blocked A v') \<Longrightarrow> refines b A v' (f x)"
  shows "refines b A v (bnd m f)"
proof -
  have "\<exists>v2. (c_step A)\<^sup>*\<^sup>* v v2 \<and> wf_view A v2 \<and> REP A v2 w2 \<and> (b \<longrightarrow> blocked A v2)"
    if w: "REP A v w" and r: "bnd m f w = Inr (y, w2)" for w y w2
  proof -
    obtain x w1 where m: "m w = Inr (x, w1)" and f: "f x w1 = Inr (y, w2)"
      using r by (rule bnd_InrE)
    obtain v1 where v1: "(c_step A)\<^sup>*\<^sup>* v v1" "wf_view A v1" "REP A v1 w1" "b' \<longrightarrow> blocked A v1"
      using refinesD [OF assms(1) w m] by blast
    obtain v2 where "(c_step A)\<^sup>*\<^sup>* v1 v2" "wf_view A v2" "REP A v2 w2" "b \<longrightarrow> blocked A v2"
      using refinesD [OF assms(2) [OF v1(1,2)] v1(3) f] v1(4) by blast
    with v1(1) show ?thesis by (meson rtranclp_trans)
  qed
  then show ?thesis unfolding refines_def hoare_def by blast
qed

lemma refines_thn:
  assumes "refines b' A v m"
    and "\<And>v'. (c_step A)\<^sup>*\<^sup>* v v' \<Longrightarrow> wf_view A v' \<Longrightarrow> (b' \<Longrightarrow> blocked A v') \<Longrightarrow> refines b A v' n"
  shows "refines b A v (thn m n)"
  unfolding thn_def using assms by (rule refines_bnd)

lemma refines_skip: "keeps qcore m \<Longrightarrow> (\<And>x. refines b A v (f x)) \<Longrightarrow> refines b A v (bnd m f)"
  unfolding refines_def by (rule hoare_bnd, rule REP_keeps)

lemma refines_skip_thn: "keeps qcore m \<Longrightarrow> refines b A v n \<Longrightarrow> refines b A v (thn m n)"
  unfolding thn_def by (rule refines_skip)

lemma refines_peek: "(\<And>w0. REP A v w0 \<Longrightarrow> refines b A v (f w0)) \<Longrightarrow> refines b A v (peek f)"
  unfolding refines_def hoare_def peek_run by blast

lemma refines_if: "(P \<Longrightarrow> refines b A v m) \<Longrightarrow> (\<not> P \<Longrightarrow> refines b A v n) \<Longrightarrow> refines b A v (if P then m else n)"
  by simp

lemma refines_deref: "(\<And>c. p = Some c \<Longrightarrow> refines b A v (f c)) \<Longrightarrow> refines b A v (deref p f)"
  by (cases p) (auto simp: deref_def refines_def hoare_throw)

text \<open>
  Within a move the busy map and the pointers are out of step; \<open>reach b A u v B m\<close> says that \<open>m\<close>,
  started in the intermediate view \<open>v\<close> with busy map \<open>B\<close>, ends in a view the machine can reach
  from \<open>u\<close>.
\<close>

definition reach :: "bool \<Rightarrow> (cptr \<Rightarrow> nat \<times> nat) \<Rightarrow> cview \<Rightarrow> cview \<Rightarrow> (nat \<times> nat) set \<Rightarrow> 'a drv \<Rightarrow> bool" where
  "reach b A u v B m \<longleftrightarrow> hoare (\<lambda>w. R A v B w \<and> (\<forall>c \<in> set (active u). ok_addr A c)) m
     (\<lambda>_ w. \<exists>v'. (c_step A)\<^sup>*\<^sup>* u v' \<and> wf_view A v' \<and> REP A v' w \<and> (b \<longrightarrow> blocked A v'))"

lemma reach_start:
  "(\<forall>c \<in> set (active v). ok_addr A c \<Longrightarrow> reach b A v v (A ` set (outstanding v)) m) \<Longrightarrow> refines b A v m"
  unfolding refines_def reach_def hoare_def REP_def by blast

lemma reach_thn:
  "hoare (R A v B) m (\<lambda>_. R A v' B') \<Longrightarrow> reach b A u v' B' n \<Longrightarrow> reach b A u v B (thn m n)"
  unfolding reach_def hoare_def by (metis thn_InrE)

lemma reach_skip: "keeps qcore m \<Longrightarrow> reach b A u v B n \<Longrightarrow> reach b A u v B (thn m n)"
  by (rule reach_thn, rule R_keeps)

lemma reach_skip_bnd: "keeps qcore m \<Longrightarrow> (\<And>x. reach b A u v B (f x)) \<Longrightarrow> reach b A u v B (bnd m f)"
  using R_keeps [of m A v B] unfolding reach_def hoare_def by (metis bnd_InrE)

text \<open>The move is complete.\<close>

lemma c_step_active: "c_step A u v \<Longrightarrow> set (active v) \<subseteq> set (active u)"
  by (induction rule: c_step.induct) (auto simp: active_def outstanding_def)

lemma c_steps_active: "(c_step A)\<^sup>*\<^sup>* u v \<Longrightarrow> set (active v) \<subseteq> set (active u)"
  by (induction rule: rtranclp_induct) (auto dest: c_step_active)

lemma reach_commits:
  assumes "(c_step A)\<^sup>*\<^sup>* u v" and "B = A ` set (outstanding v)" and "refines b A v m"
  shows "reach b A u v B m"
  unfolding reach_def
proof (rule hoareI)
  fix w x w' assume w: "R A v B w \<and> (\<forall>c \<in> set (active u). ok_addr A c)" and m: "m w = Inr (x, w')"
  then have "REP A v w" using c_steps_active [OF assms(1)] by (auto simp: REP_def assms(2))
  then obtain v' where "(c_step A)\<^sup>*\<^sup>* v v'" "wf_view A v'" "REP A v' w'" "b \<longrightarrow> blocked A v'"
    using refinesD [OF assms(3) _ m] by blast
  then show "\<exists>v'. (c_step A)\<^sup>*\<^sup>* u v' \<and> wf_view A v' \<and> REP A v' w' \<and> (b \<longrightarrow> blocked A v')"
    using assms(1) by (meson rtranclp_trans)
qed

lemma reach_commit:
  "c_step A u v \<Longrightarrow> B = A ` set (outstanding v) \<Longrightarrow> refines b A v m \<Longrightarrow> reach b A u v B m"
  by (rule reach_commits) auto

lemma reach_fail: "reach b A u v B (thn (deref None f) n)"
  by (simp add: reach_def hoare_def run_simps)

context dma_host begin

lemma execute_refines': "wf_view A v \<Longrightarrow> refines b A v (wd33c93_execute e)"
  using execute_refines [of A v] unfolding refines_def hoare_def
  by (metis exec_spec_steps c_steps_wf exec_spec_blocked)

end

section \<open>The moves\<close>

lemma unique_con:
  "wf_view A v \<Longrightarrow> v_con v = Some c \<Longrightarrow>
   A ` set (outstanding v) - {A c} = A ` set (outstanding (v\<lparr>v_con := None\<rparr>))"
  by (auto simp: wf_view_def outstanding_def)

lemma unique_sel:
  "wf_view A v \<Longrightarrow> v_sel v = Some c \<Longrightarrow>
   A ` set (outstanding v) - {A c} = A ` set (outstanding (v\<lparr>v_sel := None\<rparr>))"
  by (auto simp: wf_view_def outstanding_def)

lemma outstanding_upd [simp]:
  "outstanding (v\<lparr>v_done := d\<rparr>) = outstanding v" "outstanding (v\<lparr>v_in := q\<rparr>) = outstanding v"
  by (simp_all add: outstanding_def)

lemma active_ptr: "v_con v = Some c \<or> v_sel v = Some c \<Longrightarrow> c \<in> set (active v)"
  by (auto simp: active_def outstanding_def)

lemma R_drop_connected:
  assumes "ok_addr A c"
  shows "hoare (R A v B) (drop_connected c) (\<lambda>_. R A (v\<lparr>v_con := None\<rparr>) (B - {A c}))"
  unfolding drop_connected_def seqs.simps
  by (rule hoare_thn [OF R_connected], rule hoare_thn [OF R_clear_busy [OF assms]], rule R_keeps)
    (intro qk; simp)

lemma finish_con_step: "v_con v = Some c \<Longrightarrow> c_step A v (v\<lparr>v_con := None, v_done := v_done v @ [c]\<rparr>)"
  by (rule c_step.finish_connected)

context dma_host begin

lemma refines_exec_tail: "wf_view A v \<Longrightarrow> refines b A v (seqs [spin_unlock, wd33c93_execute e])"
  unfolding seqs.simps
  by (intro refines_skip_thn qk refines_thn [OF execute_refines' [where b = True]] refines_keeps) simp_all

lemma refines_timeout:
  assumes v: "wf_view A v"
  shows "refines b A v (intr_timeout e (v_con v))"
  unfolding intr_timeout_def
proof (rule refines_peek)
  fix w0 assume r: "REP A v w0"
  have sel: "selecting (hdata w0) = v_sel v" using r by (simp add: REP_def R_def)
  let ?rest = "\<lambda>p. deref p (\<lambda>c. seqs [mod_cmd c (\<lambda>k. k\<lparr>result := push_bit 16 (DID_NO_CONNECT e)\<rparr>),
        clear_busy c, mod_hd (\<lambda>h. h\<lparr>state := S_UNCONNECTED\<rparr>), emit (Scsi_done c), spin_unlock, wd33c93_execute e])"
  have body: "reach b A v u B (?rest (Some c))"
    if ok: "ok_addr A c" and s: "c_step A v (u\<lparr>v_done := v_done u @ [c]\<rparr>)"
      and b: "B - {A c} = A ` set (outstanding u)" for u B c
    unfolding deref_Some seqs.simps
    by (intro reach_skip [OF keeps_cmd_qcore] reach_thn [OF R_clear_busy [OF ok]]
        reach_skip [OF keeps_hd_qcore] reach_thn [OF R_done]
        reach_commit [OF s] refines_exec_tail [unfolded seqs.simps] c_step_wf [OF s v]) (simp_all add: b)
  have none: "refines b A v (thn m (deref None f))" for m and f :: "cptr \<Rightarrow> unit drv"
    by (simp add: refines_def hoare_def thn_def bnd_def deref_def throw_def split: sum.splits)
  have "refines b A v (thn (mod_hd (\<lambda>h. h\<lparr>connected := None\<rparr>)) (?rest (v_con v)))"
  proof (cases "v_con v")
    case (Some c)
    then show ?thesis
      by (simp only:, intro reach_start reach_thn [OF R_connected] body)
        (use active_ptr [of v c] in \<open>simp_all add: finish_con_step unique_con [OF v]\<close>)
  qed (simp add: none)
  moreover have "refines b A v (thn (mod_hd (\<lambda>h. h\<lparr>selecting := None\<rparr>)) (?rest (v_sel v)))"
  proof (cases "v_sel v")
    case (Some c)
    then show ?thesis
      by (simp only:, intro reach_start reach_thn [OF R_selecting] body)
        (use active_ptr [of v c] in \<open>simp_all add: finish_selecting unique_sel [OF v]\<close>)
  qed (simp add: none)
  ultimately show "refines b A v (bnd (if state (hdata w0) = S_RUNNING_LEVEL2
          then thn (mod_hd (\<lambda>h. h\<lparr>connected := None\<rparr>)) (ret (v_con v))
          else thn (mod_hd (\<lambda>h. h\<lparr>selecting := None\<rparr>)) (ret (selecting (hdata w0)))) ?rest)"
    by (simp add: bnd_thn_ret sel)
qed

lemma refines_select:
  assumes v: "wf_view A v"
  shows "refines b A v intr_select"
  unfolding intr_select_def seqs.simps
proof (rule refines_peek, goal_cases)
  case (1 w0)
  then have sel: "selecting (hdata w0) = v_sel v" by (simp add: REP_def R_def)
  let ?u = "v\<lparr>v_con := v_sel v\<rparr>"
  have con: "hoare (R A v B) (mod_hd (\<lambda>h. h\<lparr>connected := selecting h\<rparr>)) (\<lambda>_. R A ?u B)" for B
    unfolding mod_hd_def by (rule hoare_modify) (simp add: R_def queue_of_hdata)
  show ?case unfolding sel
  proof (cases "v_sel v")
    case None
    show "refines b A v (thn (mod_hd (\<lambda>h. h\<lparr>connected := selecting h\<rparr>)) (thn (mod_hd (\<lambda>h. h\<lparr>selecting := None\<rparr>))
       (thn (deref (v_sel v) f) n)))" for f and n :: "unit drv"
      unfolding None by (intro reach_start reach_thn [OF con] reach_thn [OF R_selecting] reach_fail)
  next
    case (Some c)
    have "v\<lparr>v_sel := None, v_con := Some c\<rparr> = ?u\<lparr>v_sel := None\<rparr>"
      using Some by (cases v) simp
    moreover have "c_step A v (v\<lparr>v_sel := None, v_con := Some c\<rparr>)"
      using v Some by (intro selected) (auto simp: wf_view_def)
    ultimately have s: "c_step A v (?u\<lparr>v_sel := None\<rparr>)" by (simp only:)
    show "refines b A v (thn (mod_hd (\<lambda>h. h\<lparr>connected := selecting h\<rparr>)) (thn (mod_hd (\<lambda>h. h\<lparr>selecting := None\<rparr>))
       (thn (deref (v_sel v) (\<lambda>c.
             thn (put_out 0 [identify_msg (dev_lun (dev_of w0 c)) (SCp_phase (cmds w0 c) \<noteq> 0)])
            (thn (bnd (arr_get (sync_stat (hdata w0)) (id_of w0 c)) (\<lambda>s.
                     if s = SS_FIRST
                     then thn (set_sync_stat (id_of w0 c) SS_WAITING) (offer_sync (id_of w0 c))
                     else set_outgoing_len 1)) (ret ()))))
         (thn (set_state S_CONNECTED) (thn spin_unlock (ret ()))))))"
      by (intro reach_start reach_thn [OF con] reach_thn [OF R_selecting] reach_commit [OF s]
          refines_keeps c_step_wf [OF s v] qk)
        (use v Some in \<open>auto simp: outstanding_def wf_view_def blocked_def\<close>)
  qed
qed

lemma refines_finish:
  assumes v: "wf_view A v" and c: "v_con v = Some c" and k: "keeps qcore m"
    and n: "\<And>v'. wf_view A v' \<Longrightarrow> refines b A v' n"
  shows "refines b A v (thn (drop_connected c) (thn m (thn (emit (Scsi_done c)) n)))"
proof (rule reach_start)
  let ?u = "v\<lparr>v_con := None\<rparr>"
  assume "\<forall>c \<in> set (active v). ok_addr A c"
  then have ok: "ok_addr A c" using active_ptr [of v c] c by simp
  have s: "c_step A v (?u\<lparr>v_done := v_done ?u @ [c]\<rparr>)" using finish_con_step [OF c] by simp
  show "reach b A v v (A ` set (outstanding v)) (thn (drop_connected c) (thn m (thn (emit (Scsi_done c)) n)))"
    by (intro reach_thn [OF R_drop_connected [OF ok]] reach_skip [OF k] reach_thn [OF R_done]
        reach_commit [OF s] n c_step_wf [OF s v]) (simp add: unique_con [OF v c])
qed

lemma refines_sel_xfer_done:
  assumes v: "wf_view A v" and b: "b \<Longrightarrow> blocked A v"
  shows "refines b A v (intr_sel_xfer_done e (v_con v) phs)"
  unfolding intr_sel_xfer_done_def seqs.simps
proof (rule refines_skip_thn [OF keeps_io_qcore [OF keeps_write_wd33c93]], goal_cases)
  case 1
  show ?case
  proof (cases "phs = 0x60")
    case True
    have fin: "refines b A v (thn (drop_connected c) (thn (mod_cmd c f) (thn (set_result e c)
        (thn (emit (Scsi_done c)) (thn spin_unlock (thn (wd33c93_execute e) (ret ())))))))"
      if "v_con v = Some c" "keeps qcore (mod_cmd c f)" for c f
      by (rule refines_finish [OF v that(1) keeps_thn [OF that(2) keeps_set_result], unfolded thn_assoc])
        (rule refines_exec_tail [unfolded seqs.simps])
    show ?thesis unfolding True simp_thms if_True
      by (rule refines_deref, rule refines_skip_thn [OF keeps_cmd_qcore], simp, simp,
          rule refines_skip [OF keeps_io_qcore [OF keeps_read_wd33c93]],
          rule fin, assumption, rule keeps_cmd_qcore) simp_all
  qed (simp add: refines_keeps v b qk)
qed

lemma refines_unexp_disc:
  assumes v: "wf_view A v" and b: "b \<Longrightarrow> blocked A v"
  shows "refines b A v (intr_unexp_disc e (v_con v))"
proof (cases "v_con v")
  case None
  then show ?thesis unfolding intr_unexp_disc_def by (auto intro!: refines_keeps v b qk)
next
  case (Some c)
  have "refines b A v (thn (drop_connected c) (thn (set_result e c) (thn (emit (Scsi_done c))
      (thn spin_unlock (thn (wd33c93_execute e) (ret ()))))))"
    by (rule refines_finish [OF v Some keeps_set_result]) (rule refines_exec_tail [unfolded seqs.simps])
  then show ?thesis unfolding intr_unexp_disc_def Some
    by (simp add: refines_skip_thn keeps_io_qcore [OF keeps_write_wd33c93])
qed

lemma refines_done_disc:
  assumes v: "wf_view A v" and c: "v_con v = Some c"
  shows "refines False A v (seqs [drop_connected c, set_result e c, emit (Scsi_done c)])"
  unfolding seqs.simps by (rule refines_finish [OF v c keeps_set_result]) (intro refines_keeps qk; simp)

lemma refines_park:
  assumes v: "wf_view A v" and c: "v_con v = Some c"
  shows "refines False A v (park c)"
  unfolding park_def seqs.simps
proof (rule reach_start)
  let ?u = "v\<lparr>v_dis := c # v_dis v, v_con := None\<rparr>"
  have "c_step A v (v\<lparr>v_con := None, v_dis := c # v_dis v\<rparr>)" by (rule disconnect [OF c])
  then have s: "c_step A v ?u" by (cases v) simp
  have fresh: "c \<notin> set (v_in v)" "c \<notin> set (v_dis v)"
    using v c by (auto simp: wf_view_def active_def outstanding_def)
  have b: "A ` set (outstanding v) = A ` set (outstanding ?u)"
    using c by (auto simp: outstanding_def)
  show "reach False A v v (A ` set (outstanding v)) (thn (modify (push_q disconnected_Q disconnected_Q_update c))
     (thn (mod_hd (\<lambda>h. h\<lparr>connected := None\<rparr>)) (thn (set_state S_UNCONNECTED)
     (thn (peek (\<lambda>w. bnd (arr_get (disc_done_cnt (hdata w)) (id_of w c)) (\<lambda>n.
             mod_hd (\<lambda>h. h\<lparr>disc_done_cnt := (disc_done_cnt h)[id_of w c := n + 1]\<rparr>)))) (ret ())))))"
    by (rule reach_thn [OF R_push_dis [OF fresh]], rule reach_thn [OF R_connected], rule reach_commit [OF s b],
        rule refines_keeps [OF _ c_step_wf [OF s v]], (intro qk; simp), simp)
qed

lemma refines_disc:
  assumes v: "wf_view A v"
  shows "refines b A v (intr_disc e (v_con v))"
proof -
  have "refines False A v (case s of
               S_PRE_CMP_DISC \<Rightarrow> deref (v_con v) (\<lambda>c.
                 seqs [drop_connected c, set_result e c, emit (Scsi_done c)])
             | S_PRE_TMP_DISC \<Rightarrow> deref (v_con v) park
             | S_RUNNING_LEVEL2 \<Rightarrow> deref (v_con v) park
             | _ \<Rightarrow> set_state S_UNCONNECTED)" for s
    by (cases s) (simp_all add: refines_deref [OF refines_park [OF v]]
        refines_deref [OF refines_done_disc [OF v, unfolded seqs.simps]] refines_keeps [OF _ v] keeps_small)
  then show ?thesis
    unfolding intr_disc_def seqs.simps
    by (intro refines_skip_thn qk refines_thn [OF refines_peek] refines_exec_tail [unfolded seqs.simps]) auto
qed

end

section \<open>Reselection\<close>

lemma REP_queues:
  assumes "REP A v w"
  shows "linked (next_of w) (disconnected_Q (hdata w)) (v_dis v)"
    "selecting (hdata w) = v_sel v" "connected (hdata w) = v_con v" "addr_of w = A"
  using assms by (simp_all add: REP_def R_def queue_of_def)

text \<open>A reconnection from an intermediate view: either no command matches, or the first match is taken.\<close>

lemma reconnect_cases:
  assumes r: "R A u B w" and m: "reconnect src lun w = Inr (x, w')"
    and d: "set (v_dis u) \<inter> set (v_in u) = {}"
  shows "(R A u B w' \<and> (\<forall>c \<in> set (v_dis u). ucast src \<noteq> dev_id (dev_of w c) \<or> lun \<noteq> ucast (dev_lun (dev_of w c)))) \<or>
    (\<exists>c xs ys. v_dis u = xs @ c # ys \<and> R A (u\<lparr>v_dis := xs @ ys, v_con := Some c\<rparr>) B w' \<and>
       ucast src = dev_id (dev_of w c) \<and> lun = ucast (dev_lun (dev_of w c)))"
proof -
  let ?P = "\<lambda>c. ucast src = dev_id (dev_of w c) \<and> lun = ucast (dev_lun (dev_of w c))"
  have q: "linked (next_of w) (disconnected_Q (hdata w)) (v_dis u)"
    using r by (simp add: R_def queue_of_def)
  from m obtain patch found where
      s: "search (resel_match w src lun) (next_of w) (disconnected_Q (hdata w)) = Inr (patch, found)"
    and m': "(case found of None \<Rightarrow> spin_unlock
       | Some c \<Rightarrow> seqs [modify (unlink_q disconnected_Q_update patch c),
                 mod_hd (\<lambda>h. h\<lparr>connected := Some c\<rparr>), resume c, spin_unlock]) w = Inr (x, w')"
    by (auto simp: reconnect_def run_simps simp del: seqs.simps split: sum.splits prod.splits)
  have st: "resel_match w src lun y = Inr (?P y)" for y by (simp add: resel_match_def)
  show ?thesis
  proof (rule search_linkedE [OF s q st])
    assume none: "found = None" and no: "\<forall>c \<in> set (v_dis u). \<not> ?P c"
    have "R A u B w'"
      using m' r none by (auto dest: hoareD [OF R_keeps [OF keeps_locks(2)]])
    with no show ?thesis by blast
  next
    fix c ys zs
    assume f: "found = Some c" "v_dis u = ys @ c # zs" "patch = last_opt ys" "?P c"
    have "hoare (R A u B) (seqs [modify (unlink_q disconnected_Q_update patch c),
        mod_hd (\<lambda>h. h\<lparr>connected := Some c\<rparr>), resume c, spin_unlock])
        (\<lambda>_. R A (u\<lparr>v_dis := ys @ zs, v_con := Some c\<rparr>) B)"
      unfolding seqs.simps f(3)
      by (rule hoare_thn [OF R_unlink_dis [OF f(2)]], use d f(2) in force,
          rule hoare_thn [OF R_connected], rule R_keeps) (intro qk)
    from hoareD [OF this _ r] m' f show ?thesis by auto
  qed
qed

text \<open>The match in terms of addresses.\<close>

lemma resel_addr:
  fixes src lun :: u8
  assumes "ok_addr (addr_of w) c"
  shows "ucast src = dev_id (dev_of w c) \<and> lun = ucast (dev_lun (dev_of w c)) \<longleftrightarrow> addr_of w c = (unat src, unat lun)"
proof -
  have l: "unat (dev_lun (dev_of w c)) < 8" using assms by (simp add: ok_addr_of addr_ok_def)
  have "ucast src = dev_id (dev_of w c) \<longleftrightarrow> unat (dev_id (dev_of w c)) = unat src"
    by (metis unat_u32_u8 word_unat_eq_iff)
  moreover have "unat (ucast (dev_lun (dev_of w c)) :: u8) = unat (dev_lun (dev_of w c))"
    using l by (simp add: unsigned_ucast_eq take_bit_eq_mod unat_mod)
  then have "lun = ucast (dev_lun (dev_of w c)) \<longleftrightarrow> unat (dev_lun (dev_of w c)) = unat lun"
    by (metis word_unat_eq_iff)
  ultimately show ?thesis by (simp add: addr_of_def)
qed

text \<open>
  A reselection from an intermediate view, in advanced mode: the chip delivers the source and the
  lun. The disconnected command of that address, if there is one, is connected.
\<close>

abbreviation (input) resel_from :: "u8 \<Rightarrow> u8 \<Rightarrow> nat \<times> nat" where
  "resel_from src lun \<equiv> (unat (src AND SRCID_MASK), unat (lun AND 7))"

lemma reconnect_advanced:
  assumes r: "R A u B w" and inp: "wd_in w = src # lun # rest" and ok: "\<forall>c \<in> set (v_dis u). ok_addr A c"
    and d: "set (v_dis u) \<inter> set (v_in u) = {}"
    and m: "bnd (read_wd33c93 WD_SOURCE_ID) (\<lambda>src. bnd (resel_lun asr CSR_RESEL_AM) (\<lambda>lun.
      reconnect (src AND SRCID_MASK) lun)) w = Inr (x, w')"
  obtains (none) "\<forall>c \<in> set (v_dis u). A c \<noteq> resel_from src lun" and "R A u B w'"
  | (match) c xs ys where "v_dis u = xs @ c # ys" and "A c = resel_from src lun"
      and "R A (u\<lparr>v_dis := xs @ ys, v_con := Some c\<rparr>) B w'"
proof -
  from m obtain w1 s where k: "read_wd33c93 WD_SOURCE_ID w = Inr (s, w1)"
    and "bnd (resel_lun asr CSR_RESEL_AM) (\<lambda>lun. reconnect (s AND SRCID_MASK) lun) w1 = Inr (x, w')"
    by (rule bnd_InrE)
  from this(2) obtain l w2 where l: "resel_lun asr CSR_RESEL_AM w1 = Inr (l, w2)"
    and m2: "reconnect (s AND SRCID_MASK) l w2 = Inr (x, w')"
    by (rule bnd_InrE)
  have s: "s = src" "wd_in w1 = lun # rest" using k inp by (auto simp: run_simps)
  have l': "l = lun AND 7" using l s by (auto simp: resel_lun_def run_simps split: if_splits)
  have "keeps qcore (read_wd33c93 WD_SOURCE_ID)" "keeps qcore (resel_lun asr CSR_RESEL_AM)" by (intro qk)+
  then have r2: "R A u B w2" using r k l by (meson keepsD R_frame)
  then have A: "addr_of w2 = A" by (simp add: R_def)
  note at = resel_addr [of w2 _ "src AND SRCID_MASK" "lun AND 7", unfolded A]
  from reconnect_cases [OF r2 m2 d] show thesis
    unfolding s(1) l'
  proof (elim disjE conjE exE)
    assume "R A u B w'" and "\<forall>c \<in> set (v_dis u). ucast (src AND SRCID_MASK) \<noteq> dev_id (dev_of w2 c) \<or>
      lun AND 7 \<noteq> ucast (dev_lun (dev_of w2 c))"
    with at ok show thesis by (intro none) blast+
  next
    fix c xs ys
    assume c: "v_dis u = xs @ c # ys" "R A (u\<lparr>v_dis := xs @ ys, v_con := Some c\<rparr>) B w'"
      "ucast (src AND SRCID_MASK) = dev_id (dev_of w2 c)" "lun AND 7 = ucast (dev_lun (dev_of w2 c))"
    then have "ok_addr A c" using ok by simp
    then show thesis using c at [of c] by (intro match) blast+
  qed
qed

lemma keeps_requeue_in: "keeps wd_in (requeue c)"
  unfolding requeue_def clear_busy_def
  by (intro keeps_intros) (simp_all add: push_q_def)

lemma refines_reconnect:
  assumes v: "wf_view A v" and free: "v_sel v = None" "v_con v = None" and b: "b \<Longrightarrow> blocked A v"
  shows "refines b A v (reconnect src lun)"
  unfolding refines_def
proof (rule hoareI)
  fix w x w' assume w: "REP A v w" and m: "reconnect src lun w = Inr (x, w')"
  have r: "R A v (A ` set (outstanding v)) w" and ok: "\<forall>c \<in> set (active v). ok_addr A c"
    using w by (auto simp: REP_def)
  have "set (v_dis v) \<inter> set (v_in v) = {}"
    using v by (auto simp: wf_view_def active_def outstanding_def)
  from reconnect_cases [OF r m this]
  show "\<exists>v'. (c_step A)\<^sup>*\<^sup>* v v' \<and> wf_view A v' \<and> REP A v' w' \<and> (b \<longrightarrow> blocked A v')"
  proof (elim disjE exE conjE)
    assume "R A v (A ` set (outstanding v)) w'"
    then show ?thesis using v ok b by (auto simp: REP_def)
  next
    fix c xs ys
    let ?v = "v\<lparr>v_dis := xs @ ys, v_con := Some c\<rparr>"
    assume d: "v_dis v = xs @ c # ys" and r': "R A ?v (A ` set (outstanding v)) w'"
    have s: "c_step A v ?v" by (rule reselect [OF free d])
    have "A ` set (outstanding v) = A ` set (outstanding ?v)"
      using d free by (auto simp: outstanding_def)
    then have "REP A ?v w'" using r' ok c_step_active [OF s] by (auto simp: REP_def)
    moreover have "blocked A ?v" by (simp add: blocked_def)
    ultimately show ?thesis using s c_step_wf [OF s v] by blast
  qed
qed

text \<open>Arbitration lost while selecting (level 2 not used): the command goes back to the queue.\<close>

lemma conflict_selecting:
  assumes v: "wf_view A v" and con: "v_con v = None"
  shows "hoare (\<lambda>w. REP A v w \<and> (v_sel v = None \<or> level2 (hdata w) \<le> L2_NONE)) (resel_conflict (v_con v) phs)
    (\<lambda>_ w. \<exists>v'. (c_step A)\<^sup>*\<^sup>* v v' \<and> wf_view A v' \<and> REP A v' w \<and> v_sel v' = None \<and> v_con v' = None \<and>
       (v_sel v = None \<longrightarrow> v' = v))"
proof (rule hoareI)
  fix w x w'
  assume w: "REP A v w \<and> (v_sel v = None \<or> level2 (hdata w) \<le> L2_NONE)"
    and m: "resel_conflict (v_con v) phs w = Inr (x, w')"
  show "\<exists>v'. (c_step A)\<^sup>*\<^sup>* v v' \<and> wf_view A v' \<and> REP A v' w' \<and> v_sel v' = None \<and> v_con v' = None \<and>
      (v_sel v = None \<longrightarrow> v' = v)"
  proof (cases "v_sel v")
    case None
    then have "w' = w" using m w con REP_queues(2) [of A v w]
      by (auto simp: resel_conflict_def run_simps split: if_splits)
    with w v None con show ?thesis by blast
  next
    case (Some c)
    let ?u = "v\<lparr>v_sel := None\<rparr>" let ?v = "?u\<lparr>v_in := c # v_in ?u\<rparr>"
    have s: "c_step A v ?v" using requeue_selecting [OF Some] by simp
    have ok: "ok_addr A c" and all: "\<forall>c \<in> set (active v). ok_addr A c"
      using w active_ptr [of v c] Some by (auto simp: REP_def)
    have fresh: "c \<notin> set (v_in ?u)" "c \<notin> set (v_dis ?u)"
      using v Some by (auto simp: wf_view_def active_def outstanding_def)
    have h: "hoare (R A v B) (thn (mod_hd (\<lambda>h. h\<lparr>selecting := None\<rparr>)) (requeue c)) (\<lambda>_. R A ?v (B - {A c}))" for B
      unfolding requeue_def
      by (rule hoare_thn [OF R_selecting], rule hoare_thn [OF R_clear_busy [OF ok]], rule R_push_in [OF fresh])
    have "R A ?v (A ` set (outstanding v) - {A c}) w'"
      using m w Some REP_queues(2) [of A v w] hoareD [OF h, of w]
      by (auto simp: resel_conflict_def run_simps(4) REP_def)
    then have "REP A ?v w'"
      using unique_sel [OF v Some] all c_step_active [OF s] by (auto simp: REP_def)
    with s c_step_wf [OF s v] con Some show ?thesis by (intro exI [of _ ?v]) auto
  qed
qed

lemma refines_resel:
  assumes v: "wf_view A v" and con: "v_con v = None"
  shows "hoare (\<lambda>w. REP A v w \<and> (v_sel v = None \<or> level2 (hdata w) \<le> L2_NONE)) (intr_resel (v_con v) asr sr phs)
    (\<lambda>_ w. \<exists>v'. (c_step A)\<^sup>*\<^sup>* v v' \<and> wf_view A v' \<and> REP A v' w \<and>
       (v_sel v = None \<and> blocked A v \<longrightarrow> blocked A v'))"
  unfolding intr_resel_def
proof (rule hoare_thn [OF conflict_selecting [OF v con]], rule hoareI, elim exE conjE)
  fix w x w' v'
  assume v': "(c_step A)\<^sup>*\<^sup>* v v'" "wf_view A v'" "REP A v' w" "v_sel v' = None" "v_con v' = None" "v_sel v = None \<longrightarrow> v' = v"
    and m: "bnd (read_wd33c93 WD_SOURCE_ID) (\<lambda>src. bnd (resel_lun asr sr) (\<lambda>lun. reconnect (src AND SRCID_MASK) lun)) w = Inr (x, w')"
  have "refines (v_sel v = None \<and> blocked A v) A v' (bnd (read_wd33c93 WD_SOURCE_ID) (\<lambda>src. bnd (resel_lun asr sr) (\<lambda>lun. reconnect (src AND SRCID_MASK) lun)))"
    by (intro refines_skip qk refines_reconnect v'(2,4,5)) (use v'(6) in simp)
  from refinesD [OF this v'(3) m] obtain v2 where
    "(c_step A)\<^sup>*\<^sup>* v' v2" "wf_view A v2" "REP A v2 w'" "v_sel v = None \<and> blocked A v \<longrightarrow> blocked A v2" by blast
  with v'(1) show "\<exists>v'. (c_step A)\<^sup>*\<^sup>* v v' \<and> wf_view A v' \<and> REP A v' w' \<and>
      (v_sel v = None \<and> blocked A v \<longrightarrow> blocked A v')"
    by (meson rtranclp_trans)
qed

text \<open>
  Arbitration lost to a reselection after a select-and-transfer had been started: the command goes
  back to the queue, and the disconnected command of the reselecting address replaces it as the
  connected one. When there is none, the handler gives up with the command both queued and connected.
\<close>

lemma resel_level2:
  assumes v: "wf_view A v" and con: "v_con v = Some c" and w: "REP A v w" and l2: "L2_NONE < level2 (hdata w)"
    and inp: "wd_in w = src # lun # rest" and m: "intr_resel (v_con v) asr CSR_RESEL_AM phs w = Inr (x, w2)"
  shows "phs = 0 \<and> (if \<exists>d \<in> set (v_dis v). A d = resel_from src lun
    then \<exists>d xs ys v'. v_dis v = xs @ d # ys \<and> A d = resel_from src lun \<and>
      v' = v\<lparr>v_in := c # v_in v, v_dis := xs @ ys, v_con := Some d\<rparr> \<and>
      (c_step A)\<^sup>*\<^sup>* v v' \<and> wf_view A v' \<and> REP A v' w2
    else R A (v\<lparr>v_in := c # v_in v\<rparr>) (A ` set (outstanding v) - {A c}) w2)"
proof -
  let ?u = "v\<lparr>v_in := c # v_in v\<rparr>" and ?B = "A ` set (outstanding v) - {A c}"
  have r: "R A v (A ` set (outstanding v)) w" and all: "\<forall>c \<in> set (active v). ok_addr A c"
    using w by (auto simp: REP_def)
  have ok: "ok_addr A c" using all active_ptr [of v c] con by simp
  have fresh: "c \<notin> set (v_in v)" "c \<notin> set (v_dis v)" and sel: "v_sel v = None"
    using v con by (auto simp: wf_view_def active_def outstanding_def)
  from m con l2 obtain w1 where phs: "phs = 0" and c1: "requeue c w = Inr ((), w1)"
    and m2: "bnd (read_wd33c93 WD_SOURCE_ID) (\<lambda>src. bnd (resel_lun asr CSR_RESEL_AM) (\<lambda>lun.
      reconnect (src AND SRCID_MASK) lun)) w1 = Inr (x, w2)"
    by (auto simp: intr_resel_def resel_conflict_def throw_run peek_run not_le elim!: thn_InrE split: if_splits)
  have "hoare (R A v (A ` set (outstanding v))) (requeue c) (\<lambda>_. R A ?u ?B)"
    unfolding requeue_def by (rule hoare_thn [OF R_clear_busy [OF ok] R_push_in [OF fresh]])
  from hoareD [OF this c1 r] have r1: "R A ?u ?B w1" .
  have i1: "wd_in w1 = src # lun # rest" using keepsD [OF keeps_requeue_in c1] inp by simp
  have oks: "\<forall>c \<in> set (v_dis ?u). ok_addr A c" using all by (simp add: active_def outstanding_def)
  have "set (v_dis ?u) \<inter> set (v_in ?u) = {}"
    using v fresh by (auto simp: wf_view_def active_def outstanding_def)
  from r1 i1 oks this m2 show ?thesis
  proof (cases rule: reconnect_advanced)
    case none
    then show ?thesis using phs by auto
  next
    case (match d xs ys)
    let ?n = "v\<lparr>v_con := None, v_in := c # v_in v\<rparr>"
    let ?v = "?n\<lparr>v_dis := xs @ ys, v_con := Some d\<rparr>"
    have s1: "c_step A v ?n" by (rule requeue_connected [OF con])
    have s2: "c_step A ?n ?v" by (rule reselect) (use match sel in auto)
    have s: "(c_step A)\<^sup>*\<^sup>* v ?v" using s1 s2 by auto
    have eq: "?u\<lparr>v_dis := xs @ ys, v_con := Some d\<rparr> = ?v" by (cases v) simp
    have "?B = A ` set (outstanding ?v)"
      using unique_con [OF v con] match(1) sel by (auto simp: outstanding_def)
    then have "REP A ?v w2" using match(3) all c_steps_active [OF s] unfolding eq by (auto simp: REP_def)
    moreover have "\<exists>d \<in> set (v_dis v). A d = resel_from src lun" using match by auto
    moreover have "\<exists>d xs ys v'. v_dis v = xs @ d # ys \<and> A d = resel_from src lun \<and>
      v' = v\<lparr>v_in := c # v_in v, v_dis := xs @ ys, v_con := Some d\<rparr> \<and>
      (c_step A)\<^sup>*\<^sup>* v v' \<and> wf_view A v' \<and> REP A v' w2"
      by (intro exI conjI, rule match(1) [simplified], rule match(2), rule eq [symmetric], rule s, rule c_steps_wf [OF s v], fact)
    ultimately show ?thesis using phs by (simp only: if_True simp_thms)
  qed
qed

text \<open>While a command is being selected for level 2, it stays where it is.\<close>

lemma resel_selecting:
  assumes v: "wf_view A v" and w: "REP A v w" and sel: "v_sel v = Some c" and l2: "L2_NONE < level2 (hdata w)"
    and inp: "wd_in w = src # lun # rest" and m: "intr_resel None asr CSR_RESEL_AM phs w = Inr (x, w')"
  shows "if \<exists>d \<in> set (v_dis v). A d = resel_from src lun
    then \<exists>d \<in> set (v_dis v). A d = resel_from src lun \<and> selecting (hdata w') = Some c \<and> connected (hdata w') = Some d
    else REP A v w'"
proof -
  have r: "R A v (A ` set (outstanding v)) w" and all: "\<forall>c \<in> set (active v). ok_addr A c"
    using w by (auto simp: REP_def)
  have m2: "bnd (read_wd33c93 WD_SOURCE_ID) (\<lambda>src. bnd (resel_lun asr CSR_RESEL_AM) (\<lambda>lun.
      reconnect (src AND SRCID_MASK) lun)) w = Inr (x, w')"
    using m iffD2 [OF not_le l2] by (simp add: intr_resel_def resel_conflict_def thn_run peek_run ret_run)
  have oks: "\<forall>c \<in> set (v_dis v). ok_addr A c" using all by (simp add: active_def outstanding_def)
  have "set (v_dis v) \<inter> set (v_in v) = {}"
    using v by (auto simp: wf_view_def active_def outstanding_def)
  from r inp oks this m2 show ?thesis
    by (cases rule: reconnect_advanced) (use all sel in \<open>auto simp: REP_def R_def\<close>)
qed

text \<open>With level 2 not in use it is put back first.\<close>

lemma resel_requeued:
  assumes v: "wf_view A v" and w: "REP A v w" and sel: "v_sel v = Some c" and l2: "level2 (hdata w) \<le> L2_NONE"
    and inp: "wd_in w = src # lun # rest" and m: "intr_resel None asr CSR_RESEL_AM phs w = Inr (x, w')"
    and no: "\<forall>d \<in> set (v_dis v). A d \<noteq> resel_from src lun"
  shows "REP A (v\<lparr>v_sel := None, v_in := c # v_in v\<rparr>) w'"
proof -
  let ?u = "v\<lparr>v_sel := None\<rparr>" let ?v = "?u\<lparr>v_in := c # v_in ?u\<rparr>"
  have r: "R A v (A ` set (outstanding v)) w" and all: "\<forall>c \<in> set (active v). ok_addr A c" and s: "selecting (hdata w) = Some c"
    using w sel by (auto simp: REP_def R_def)
  have ok: "ok_addr A c" using all active_ptr [of v c] sel by simp
  have fresh: "c \<notin> set (v_in ?u)" "c \<notin> set (v_dis ?u)"
    using v sel by (auto simp: wf_view_def active_def outstanding_def)
  let ?p = "thn (mod_hd (\<lambda>h. h\<lparr>selecting := None\<rparr>)) (requeue c)"
  have h: "hoare (R A v B) ?p (\<lambda>_. R A ?v (B - {A c}))" for B
    unfolding requeue_def
    by (rule hoare_thn [OF R_selecting], rule hoare_thn [OF R_clear_busy [OF ok]], rule R_push_in [OF fresh])
  obtain w1 where p: "?p w = Inr ((), w1)"
    and m2: "bnd (read_wd33c93 WD_SOURCE_ID) (\<lambda>src. bnd (resel_lun asr CSR_RESEL_AM) (\<lambda>lun.
      reconnect (src AND SRCID_MASK) lun)) w1 = Inr (x, w')"
    using m s l2 unfolding intr_resel_def by (auto simp: resel_conflict_def peek_run elim!: thn_InrE [of _ _ w])
  have "keeps wd_in ?p" by (intro keeps_thn keeps_mod_hd keeps_requeue_in) simp
  from keepsD [OF this p] inp have i1: "wd_in w1 = src # lun # rest" by simp
  have oks: "\<forall>c \<in> set (v_dis ?v). ok_addr A c" using all by (simp add: active_def outstanding_def)
  have "set (v_dis ?v) \<inter> set (v_in ?v) = {}"
    using v fresh by (auto simp: wf_view_def active_def outstanding_def)
  from hoareD [OF h p r] i1 oks this m2 have "R A ?v (A ` set (outstanding v) - {A c}) w'"
    by (cases rule: reconnect_advanced) (use no in auto)
  moreover have "A ` set (outstanding v) - {A c} = A ` set (outstanding ?v)" using unique_sel [OF v sel] by simp
  ultimately show ?thesis using all ok by (auto simp: REP_def active_def outstanding_def)
qed

section \<open>The handler\<close>

text \<open>A reselection comes while no command is connected, and none is being selected by a level-2 command.\<close>

definition calm_resel :: "world \<Rightarrow> bool" where
  "calm_resel w \<longleftrightarrow> (case wd_in w of
       asr # sr # _ \<Rightarrow> sr = CSR_RESEL \<or> sr = CSR_RESEL_AM \<longrightarrow>
         connected (hdata w) = None \<and> (selecting (hdata w) = None \<or> level2 (hdata w) \<le> L2_NONE)
     | _ \<Rightarrow> True)"

definition resel_pending :: "world \<Rightarrow> bool" where
  "resel_pending w \<longleftrightarrow> (case wd_in w of asr # sr # _ \<Rightarrow> sr = CSR_RESEL \<or> sr = CSR_RESEL_AM | _ \<Rightarrow> False)"

context dma_host begin

lemma refines_dispatch:
  assumes v: "wf_view A v" and b: "b \<Longrightarrow> blocked A v" and sr: "sr \<noteq> CSR_RESEL" "sr \<noteq> CSR_RESEL_AM"
  shows "refines b A v (intr_dispatch e asr sr phs (v_con v))"
  unfolding intr_dispatch_def
  by (intro refines_if refines_timeout refines_select refines_sel_xfer_done refines_unexp_disc refines_disc
      refines_keeps keeps_intr_data keeps_phase_cases keeps_locks v b)
    (use sr in blast)+

text \<open>The register reads at the entry of the handler, and the stopping of a running transfer.\<close>

lemma intr_entry:
  assumes r: "wd33c93_intr e w = Inr (x, w')" and w: "REP A v w"
  obtains (ignored) asr rest where "wd_in w = asr # rest" "\<not> bit_on asr ASR_INT \<or> bit_on asr ASR_BSY" "REP A v w'"
  | (service) asr sr phs rest w1 w2 where "wd_in w = asr # sr # phs # rest" "bit_on asr ASR_INT" "\<not> bit_on asr ASR_BSY"
      "REP A v w1" "level2 (hdata w1) = level2 (hdata w)" "dma (hdata w1) = dma (hdata w)"
      "stop_transfer e (v_con v) w1 = Inr ((), w2)" "REP A v w2"
      "intr_dispatch e asr sr phs (v_con v) w2 = Inr (x, w')" "wd_in w1 = rest"
proof -
  obtain asr w0 where a: "read_aux_stat w = Inr (asr, w0)"
    and k: "(if \<not> bit_on asr ASR_INT \<or> bit_on asr ASR_BSY then ret ()
      else thn spin_lock (thn (mod_hd (\<lambda>h. h\<lparr>int_cnt := int_cnt h + 1\<rparr>)) (peek (\<lambda>w.
         bnd (read_wd33c93 WD_SCSI_STATUS) (\<lambda>sr. bnd (read_wd33c93 WD_COMMAND_PHASE) (\<lambda>phs.
         thn (stop_transfer e (connected (hdata w)))
             (intr_dispatch e asr sr phs (connected (hdata w))))))))) w0 = Inr (x, w')"
    using r unfolding wd33c93_intr_def by (rule bnd_InrE)
  obtain rest where w0: "wd_in w = asr # rest" "w0 = w\<lparr>wd_in := rest, events := events w @ [Rd_SASR asr]\<rparr>"
    using a by (auto simp: run_simps split: list.splits)
  have r0: "REP A v w0"
    using hoareD [OF REP_keeps [OF keeps_io_qcore [OF io_keeps(5)]] a w] .
  show thesis
  proof (cases "\<not> bit_on asr ASR_INT \<or> bit_on asr ASR_BSY")
    case True
    then have "w' = w0" using k by (simp add: ret_run)
    with True w0 r0 show thesis by (intro ignored) auto
  next
    case False
    with k obtain wl wc sr ws phs w1 w2 where l: "spin_lock w0 = Inr ((), wl)"
      and c: "mod_hd (\<lambda>h. h\<lparr>int_cnt := int_cnt h + 1\<rparr>) wl = Inr ((), wc)"
      and s: "read_wd33c93 WD_SCSI_STATUS wc = Inr (sr, ws)" "read_wd33c93 WD_COMMAND_PHASE ws = Inr (phs, w1)"
      and st: "stop_transfer e (connected (hdata wc)) w1 = Inr ((), w2)"
      and d: "intr_dispatch e asr sr phs (connected (hdata wc)) w2 = Inr (x, w')"
      by (auto simp: peek_run elim!: thn_InrE bnd_InrE)
    have rl: "REP A v wl" using hoareD [OF REP_keeps [OF keeps_locks(1)] l r0] .
    have "keeps qcore (mod_hd (\<lambda>h. h\<lparr>int_cnt := int_cnt h + 1\<rparr>))" by (intro qk; simp)
    from this c rl have rc: "REP A v wc" by (rule REP_keepsD)
    have rs: "REP A v ws" using hoareD [OF REP_keeps [OF keeps_io_qcore [OF keeps_read_wd33c93]] s(1) rc] .
    have r1: "REP A v w1" using hoareD [OF REP_keeps [OF keeps_io_qcore [OF keeps_read_wd33c93]] s(2) rs] .
    have r2: "REP A v w2" using hoareD [OF REP_keeps [OF keeps_stop_transfer] st r1] .
    have con: "connected (hdata wc) = v_con v" using rc by (rule REP_queues)
    have "rest = sr # phs # wd_in w1 \<and> level2 (hdata w1) = level2 (hdata w) \<and> dma (hdata w1) = dma (hdata w)"
      using l c s w0 by (auto simp: run_simps spin_lock_def split: list.splits if_splits)
    then show thesis
      using False w0 st d r1 r2 con by (intro service) auto
  qed
qed

lemma stop_transfer_level2:
  assumes "v_con v = None" and "stop_transfer e (v_con v) w1 = Inr ((), w2)"
  shows "w2 = w1"
  using assms by (simp add: stop_transfer_def run_simps split: if_splits)

lemma intr_refines:
  assumes v: "wf_view A v" and w: "REP A v w" and calm: "calm_resel w"
    and r: "wd33c93_intr e w = Inr (x, w')"
  shows "\<exists>v'. (c_step A)\<^sup>*\<^sup>* v v' \<and> wf_view A v' \<and> REP A v' w' \<and>
    (blocked A v \<and> (resel_pending w \<longrightarrow> v_sel v = None) \<longrightarrow> blocked A v')"
  using r w
proof (cases rule: intr_entry)
  case (ignored asr rest)
  then show ?thesis using v by blast
next
  case (service asr sr phs rest w1 w2)
  show ?thesis
  proof (cases "sr = CSR_RESEL \<or> sr = CSR_RESEL_AM")
    case True
    with calm service(1) have free: "v_con v = None" "v_sel v = None \<or> level2 (hdata w) \<le> L2_NONE"
      using REP_queues [OF w] by (auto simp: calm_resel_def)
    have eq: "w2 = w1" using stop_transfer_level2 [OF free(1) service(7)] .
    have "intr_resel (v_con v) asr sr phs w1 = Inr (x, w')"
      using service(9) True eq by (auto simp: intr_dispatch_def phase_int_def)
    moreover have "resel_pending w" using True service(1) by (simp add: resel_pending_def)
    ultimately show ?thesis using hoareD [OF refines_resel [OF v free(1)]] free service by (metis (no_types, lifting))
  next
    case False
    then have "refines (blocked A v) A v (intr_dispatch e asr sr phs (v_con v))"
      by (intro refines_dispatch [OF v]) auto
    from refinesD [OF this service(8,9)] show ?thesis by blast
  qed
qed

text \<open>A reselection in advanced mode that arrives while no transfer is running.\<close>

lemma intr_reselected:
  assumes w: "REP A v w" and r: "wd33c93_intr e w = Inr (x, w')" and idle: "v_con v = None \<or> dma (hdata w) = D_DMA_OFF"
    and inp: "wd_in w = asr # CSR_RESEL_AM # phs # rest" "bit_on asr ASR_INT" "\<not> bit_on asr ASR_BSY"
  obtains w1 where "REP A v w1" and "level2 (hdata w1) = level2 (hdata w)" and "wd_in w1 = rest"
    and "intr_resel (v_con v) asr CSR_RESEL_AM phs w1 = Inr (x, w')"
  using r w
proof (cases rule: intr_entry)
  case (ignored a rest')
  then show thesis using inp by simp
next
  case (service a s p rest' w1 w2)
  have eq: "w2 = w1"
    using idle
  proof
    assume "v_con v = None"
    then show ?thesis by (rule stop_transfer_level2 [OF _ service(7)])
  next
    assume "dma (hdata w) = D_DMA_OFF"
    then show ?thesis using service(6,7) by (simp add: stop_transfer_def run_simps)
  qed
  have "intr_resel (v_con v) asr CSR_RESEL_AM phs w1 = Inr (x, w')"
    using service(1,9) inp eq by (auto simp: intr_dispatch_def phase_int_def)
  then show thesis using that service(1,4,5,10) inp by simp
qed

end

end
