(* ===== verification/WdControl.thy ===== *)
theory WdControl
  imports WdIntr
begin

text \<open>
  Resetting the chip and the host, and aborting a command (\<^verbatim>\<open>reset_wd33c93\<close>,
  \<^verbatim>\<open>wd33c93_host_reset\<close>, \<^verbatim>\<open>wd33c93_abort\<close> of \<^verbatim>\<open>wd33c93.c\<close>). The reset waits for an
  interrupt without a limit; the two loops of the abort give up after a million turns.
\<close>

section \<open>Chip reset\<close>

text \<open>\<open>while (!(read_aux_stat(regs) & ASR_INT)) ;\<close>\<close>

function wait_reset :: "unit drv" where
  "wait_reset w =
     (case read_aux_stat w of
        Inl f \<Rightarrow> Inl f
      | Inr (asr, w1) \<Rightarrow> if bit_on asr ASR_INT then Inr ((), w1) else wait_reset w1)"
  by pat_completeness auto
termination
  by (relation "measure (\<lambda>w. length (wd_in w))") (auto dest: read_aux_stat_shorter)

declare wait_reset.simps [simp del]

definition set_chip :: "u8 \<Rightarrow> unit drv" where
  "set_chip c = mod_hd (\<lambda>h. h\<lparr>chip := c\<rparr>)"

definition detect_chip :: "u8 \<Rightarrow> unit drv" where
  "detect_chip sr =
     (if sr = 0x00 then set_chip C_WD33C93
      else if sr = 0x01
      then thn (write_wd33c93 WD_QUEUE_TAG 0xa5)
          (bnd (read_wd33c93 WD_QUEUE_TAG) (\<lambda>sr.
             if sr = 0xa5 then thn (set_chip C_WD33C93B) (write_wd33c93 WD_QUEUE_TAG 0)
             else set_chip C_WD33C93A))
      else set_chip C_UNKNOWN_CHIP)"

definition reset_wd33c93 :: "unit drv" where
  "reset_wd33c93 = peek (\<lambda>w.
     thn (write_wd33c93 WD_OWN_ID (OWNID_EAF OR OWNID_RAF OR this_id w OR clock_freq (hdata w)))
    (thn (write_wd33c93 WD_CONTROL (CTRL_IDI OR CTRL_EDI OR CTRL_POLLED))
    (bnd (lift (calc_sync_xfer (default_sx_per (hdata w) div 4) DEFAULT_SX_OFF 0 (sx_table (hdata w)))) (\<lambda>x.
     thn (write_wd33c93 WD_SYNCHRONOUS_TRANSFER x)
    (thn (write_wd33c93 WD_COMMAND WD_CMD_RESET)
    (thn wait_reset
    (bnd (read_wd33c93 WD_SCSI_STATUS) (\<lambda>sr.
     bnd (read_wd33c93 WD_CDB_1) (\<lambda>mc.
       seqs [mod_hd (\<lambda>h. h\<lparr>microcode := mc\<rparr>),
             detect_chip sr,
             peek (\<lambda>w. when_do (chip (hdata w) \<noteq> C_WD33C93B) (mod_hd (\<lambda>h. h\<lparr>fast := 0\<rparr>))),
             write_wd33c93 WD_TIMEOUT_PERIOD TIMEOUT_PERIOD_VALUE,
             write_wd33c93 WD_CONTROL (CTRL_IDI OR CTRL_EDI OR CTRL_POLLED)])))))))))"

section \<open>Host reset\<close>

datatype eh_result = SUCCESS | FAILED

text \<open>One turn of the loop over the eight targets, shared with \<^verbatim>\<open>wd33c93_init\<close>.\<close>

definition reset_target :: "nat \<Rightarrow> unit drv" where
  "reset_target i = peek (\<lambda>w.
     seqs [arr_ok (busy (hdata w)) i, arr_ok (sync_xfer (hdata w)) i, arr_ok (sync_stat (hdata w)) i,
           bnd (lift (calc_sync_xfer (DEFAULT_SX_PER div 4) DEFAULT_SX_OFF 0 (sx_table (hdata w)))) (\<lambda>x.
             mod_hd (\<lambda>h. h\<lparr>busy := (busy h)[i := 0], sync_xfer := (sync_xfer h)[i := x],
                           sync_stat := (sync_stat h)[i := SS_UNSET]\<rparr>))])"

text \<open>The block of assignments after the loop, shared with \<^verbatim>\<open>wd33c93_init\<close>.\<close>

definition clear_host :: "unit drv" where
  "clear_host = mod_hd (\<lambda>h. h\<lparr>input_Q := None, selecting := None, connected := None,
     disconnected_Q := None, state := S_UNCONNECTED, dma := D_DMA_OFF, incoming_ptr := 0,
     outgoing_len := 0\<rparr>)"

definition wd33c93_host_reset :: "env \<Rightarrow> cptr \<Rightarrow> eh_result drv" where
  "wd33c93_host_reset e c =
     thn (seqs [host_spin_lock,
                emit Disable_irq,
                dma_stop e None 0,
                seqs (map reset_target [0..<8]),
                clear_host,
                reset_wd33c93,
                mod_cmd c (\<lambda>k. k\<lparr>result := push_bit 16 (DID_RESET e)\<rparr>),
                emit Enable_irq,
                host_spin_unlock])
         (ret SUCCESS)"

section \<open>Abort\<close>

text \<open>The argument is what \<open>timeout\<close> still allows; the first turn is always made.\<close>

fun flush_fifo :: "nat \<Rightarrow> u8 drv" where
  "flush_fifo 0 = bnd read_aux_stat (\<lambda>asr.
     thn (when_do (bit_on asr ASR_DBR) (bnd (read_wd33c93 WD_DATA) (\<lambda>_. ret ()))) (ret asr))"
| "flush_fifo (Suc n) = bnd read_aux_stat (\<lambda>asr.
     thn (when_do (bit_on asr ASR_DBR) (bnd (read_wd33c93 WD_DATA) (\<lambda>_. ret ())))
         (if bit_on asr ASR_INT then ret asr else flush_fifo n))"

fun wait_cip :: "nat \<Rightarrow> u8 \<Rightarrow> u8 drv" where
  "wait_cip 0 asr = ret asr"
| "wait_cip (Suc n) asr = (if bit_on asr ASR_CIP then bnd read_aux_stat (wait_cip n) else ret asr)"

text \<open>Case 1: the command has not been issued yet; it is unlinked from the input queue.\<close>

definition abort_queued :: "env \<Rightarrow> cptr option \<Rightarrow> cptr \<Rightarrow> eh_result drv" where
  "abort_queued e prev c =
     thn (seqs [modify (unlink_q input_Q_update prev c),
                mod_cmd c (\<lambda>k. k\<lparr>host_scribble := None\<rparr>),
                mod_cmd c (\<lambda>k. k\<lparr>result := push_bit 16 (DID_ABORT e)\<rparr>),
                emit Enable_irq,
                emit (Scsi_done c)])
         (ret SUCCESS)"

text \<open>Case 2: the command is connected; the chip is told to abort and to disconnect.\<close>

definition abort_chip :: "env \<Rightarrow> cptr \<Rightarrow> unit drv" where
  "abort_chip e c =
     seqs [peek (\<lambda>w. when_do (dma (hdata w) = D_DMA_RUNNING)
             (thn (dma_stop e (Some c) 0) (mod_hd (\<lambda>h. h\<lparr>dma := D_DMA_OFF\<rparr>)))),
           write_wd33c93 WD_CONTROL (CTRL_IDI OR CTRL_EDI OR CTRL_POLLED),
           write_wd33c93_cmd WD_CMD_ABORT,
           bnd (flush_fifo 1000000) (\<lambda>_. ret ()),
           bnd (read_wd33c93 WD_SCSI_STATUS) (\<lambda>_. ret ()),
           bnd read_wd33c93_count (\<lambda>_. ret ()),
           write_wd33c93_cmd WD_CMD_DISCONNECT,
           bnd read_aux_stat (\<lambda>asr. bnd (wait_cip 1000000 asr) (\<lambda>_. ret ())),
           bnd (read_wd33c93 WD_SCSI_STATUS) (\<lambda>_. ret ())]"

definition abort_connected :: "env \<Rightarrow> cptr \<Rightarrow> eh_result drv" where
  "abort_connected e c =
     thn (abort_chip e c)
    (thn (seqs [clear_busy c,
                mod_hd (\<lambda>h. h\<lparr>connected := None, state := S_UNCONNECTED\<rparr>),
                mod_cmd c (\<lambda>k. k\<lparr>result := push_bit 16 (DID_ABORT e)\<rparr>)])
    (thn (wd33c93_execute e)
    (thn (seqs [emit Enable_irq, emit (Scsi_done c)])
         (ret SUCCESS))))"

definition is_cmd :: "cptr \<Rightarrow> cptr \<Rightarrow> fault + bool" where
  "is_cmd c p = Inr (p = c)"

definition wd33c93_abort :: "env \<Rightarrow> cptr \<Rightarrow> eh_result drv" where
  "wd33c93_abort e c =
     thn (emit Disable_irq)
    (peek (\<lambda>w.
       bnd (lift (search (is_cmd c) (next_of w) (input_Q (hdata w)))) (\<lambda>(prev, queued).
       if queued \<noteq> None then abort_queued e prev c
       else if connected (hdata w) = Some c then abort_connected e c
       else
         bnd (lift (search (is_cmd c) (next_of w) (disconnected_Q (hdata w)))) (\<lambda>(_, parked).
         if parked \<noteq> None then thn (emit Enable_irq) (ret FAILED)
         else thn (wd33c93_execute e) (thn (emit Enable_irq) (ret FAILED))))))"

end
