(* ===== verification/WdSetup.thy ===== *)
theory WdSetup
  imports WdControl "HOL-Library.Sublist" "HOL-Library.Char_ord"
begin

text \<open>
  Configuration (\<^verbatim>\<open>wd33c93_setup\<close>, \<^verbatim>\<open>check_setup_args\<close>, \<^verbatim>\<open>wd33c93_init\<close> and
  \<^verbatim>\<open>wd33c93_write_info\<close> of \<^verbatim>\<open>wd33c93.c\<close>). The command line is cut into pieces in place: the
  commas in the static buffer are overwritten with NUL characters and the elements of
  \<^verbatim>\<open>setup_args\<close> point into it, so an element is either a literal or an offset.
\<close>

section \<open>The command line\<close>

datatype setup_arg = Lit string | Off nat

record setup_state =
  setup_args :: "setup_arg list"
  setup_used :: "bool list"
  setup_buffer :: string
  done_setup :: bool

abbreviation (input) MAX_SETUP_ARGS :: nat where "MAX_SETUP_ARGS \<equiv> 10"
abbreviation (input) SETUP_BUFFER_SIZE :: nat where "SETUP_BUFFER_SIZE \<equiv> 200"
abbreviation (input) NUL :: char where "NUL \<equiv> CHR 0x00"

text \<open>The static initial values.\<close>

definition setup_init :: setup_state where
  "setup_init = \<lparr>setup_args = replicate MAX_SETUP_ARGS (Lit []), setup_used = replicate MAX_SETUP_ARGS False,
                 setup_buffer = replicate SETUP_BUFFER_SIZE NUL, done_setup = False\<rparr>"

text \<open>The C string that starts at offset \<open>p\<close>.\<close>

definition c_str :: "nat \<Rightarrow> string \<Rightarrow> string" where
  "c_str p buf = takeWhile (\<lambda>c. c \<noteq> NUL) (drop p buf)"

definition arg_str :: "string \<Rightarrow> setup_arg \<Rightarrow> string" where
  "arg_str buf a = (case a of Lit s \<Rightarrow> s | Off p \<Rightarrow> c_str p buf)"

text \<open>\<open>strchr(buf + p, ',')\<close>, as an offset into the buffer.\<close>

definition strchr_comma :: "nat \<Rightarrow> string \<Rightarrow> nat option" where
  "strchr_comma p buf =
     (if CHR '','' \<in> set (c_str p buf)
      then Some (p + length (takeWhile (\<lambda>c. c \<noteq> CHR '','') (c_str p buf))) else None)"

function parse_args :: "nat \<Rightarrow> nat \<Rightarrow> string \<Rightarrow> setup_arg list \<Rightarrow> fault + string \<times> setup_arg list" where
  "parse_args i p1 buf sa =
     (if length buf \<le> p1 then Inl Out_of_bounds
      else if buf ! p1 = NUL \<or> MAX_SETUP_ARGS \<le> i then Inr (buf, sa)
      else case strchr_comma p1 buf of
             Some p2 \<Rightarrow> parse_args (Suc i) (Suc p2) (buf[p2 := NUL])
                          (if p1 \<noteq> p2 then sa[i := Off p1] else sa)
           | None \<Rightarrow> Inr (buf, sa[i := Off p1]))"
  by pat_completeness auto
termination
  by (relation "measure (\<lambda>(i, p1, buf, sa). MAX_SETUP_ARGS - i)") auto

declare parse_args.simps [simp del]

text \<open>\<open>strncpy\<close> into the buffer, with its padding, and the final terminator.\<close>

definition fill_buffer :: "string option \<Rightarrow> string \<Rightarrow> string" where
  "fill_buffer str buf =
     (let buf = buf[0 := NUL];
          buf = (case str of None \<Rightarrow> buf
                 | Some s \<Rightarrow> take SETUP_BUFFER_SIZE (s @ replicate SETUP_BUFFER_SIZE NUL))
      in buf[SETUP_BUFFER_SIZE - 1 := NUL])"

definition wd33c93_setup :: "string option \<Rightarrow> setup_state \<Rightarrow> fault + setup_state" where
  "wd33c93_setup str st =
     (case parse_args 0 0 (fill_buffer str (setup_buffer st)) (setup_args st) of
        Inl f \<Rightarrow> Inl f
      | Inr (buf, sa) \<Rightarrow>
          Inr (st\<lparr>setup_args := sa, setup_buffer := buf,
                  setup_used := replicate MAX_SETUP_ARGS False, done_setup := True\<rparr>))"

section \<open>Looking up a keyword\<close>

definition the_arg :: "setup_state \<Rightarrow> nat \<Rightarrow> string" where
  "the_arg st x = arg_str (setup_buffer st) (setup_args st ! x)"

text \<open>The loop over the remaining indices.\<close>

fun scan_args :: "string \<Rightarrow> setup_state \<Rightarrow> nat list \<Rightarrow> nat option" where
  "scan_args key st [] = None"
| "scan_args key st (x # xs) =
     (if setup_used st ! x then scan_args key st xs
      else if prefix key (the_arg st x) then Some x
      else if prefix ''next'' (the_arg st x) then None
      else scan_args key st xs)"

definition arg_val :: "('a kernel_scheme) \<Rightarrow> string \<Rightarrow> int" where
  "arg_val k cp =
     (case cp of
        c # d # ds \<Rightarrow> if c = CHR '':'' \<and> CHR ''0'' \<le> d \<and> d \<le> CHR ''9''
                      then sint (fst (simple_strtoul k (d # ds))) else -1
      | _ \<Rightarrow> -1)"

text \<open>\<open>None\<close> for the result 0, else the index plus one and what is stored through \<open>val\<close>.\<close>

definition check_setup_args :: "('a kernel_scheme) \<Rightarrow> string \<Rightarrow> setup_state \<Rightarrow> (nat \<times> int) option \<times> setup_state" where
  "check_setup_args k key st =
     (case scan_args key st [0..<MAX_SETUP_ARGS] of
        None \<Rightarrow> (None, st)
      | Some x \<Rightarrow> (Some (Suc x, arg_val k (drop (length key) (the_arg st x))),
                   st\<lparr>setup_used := (setup_used st)[x := True]\<rparr>))"

section \<open>Initialisation\<close>

type_synonym 'a cfg = "(hostdata \<times> setup_state, 'a) prog"

definition on_host :: "(hostdata \<Rightarrow> hostdata) \<Rightarrow> unit cfg" where
  "on_host f = modify (\<lambda>(h, st). (f h, st))"

definition ask :: "('a kernel_scheme) \<Rightarrow> string \<Rightarrow> (nat \<times> int) option cfg" where
  "ask k key = (\<lambda>(h, st). case check_setup_args k key st of (r, st') \<Rightarrow> Inr (r, (h, st')))"

definition with_arg :: "('a kernel_scheme) \<Rightarrow> string \<Rightarrow> (int \<Rightarrow> unit cfg) \<Rightarrow> unit cfg" where
  "with_arg k key f = bnd (ask k key) (\<lambda>r. case r of None \<Rightarrow> ret () | Some (i, val) \<Rightarrow> f val)"

definition set_clock :: "int \<Rightarrow> unit cfg" where
  "set_clock freq = (case set_clk_freq freq of (fs, mhz) \<Rightarrow>
     bnd (lift (calc_sx_table (word_of_int mhz))) (\<lambda>t. on_host (\<lambda>h. h\<lparr>clock_freq := fs, sx_table := t\<rparr>)))"

definition table_period :: "u32 \<Rightarrow> hostdata \<Rightarrow> fault + u32" where
  "table_period ns h = (case round_period ns (sx_table h) of
       Inl f \<Rightarrow> Inl f
     | Inr x \<Rightarrow> if x < length (sx_table h) then Inr (period_ns (sx_table h ! x)) else Inl Out_of_bounds)"

definition set_period :: "u32 \<Rightarrow> unit cfg" where
  "set_period ns = peek (\<lambda>(h, st). bnd (lift (table_period ns h)) (\<lambda>p. on_host (\<lambda>h. h\<lparr>default_sx_per := p\<rparr>)))"

definition mark_used :: "nat \<Rightarrow> setup_state \<Rightarrow> setup_state" where
  "mark_used i st = st\<lparr>setup_used := map (\<lambda>j. if j < i then True else setup_used st ! j)
     [0..<length (setup_used st)]\<rparr>"

definition config_args :: "('a kernel_scheme) \<Rightarrow> unit cfg" where
  "config_args k = seqs [
     with_arg k ''clock'' set_clock,
     with_arg k ''nosync'' (\<lambda>val. on_host (\<lambda>h. h\<lparr>no_sync := word_of_int val\<rparr>)),
     with_arg k ''nodma'' (\<lambda>val. on_host (\<lambda>h. h\<lparr>no_dma := (if val = -1 then 1 else word_of_int val)\<rparr>)),
     with_arg k ''period'' (\<lambda>val. set_period (word_of_int val)),
     with_arg k ''disconnect'' (\<lambda>val. on_host (\<lambda>h. h\<lparr>disconnect :=
        (if uint DIS_NEVER \<le> val \<and> val \<le> uint DIS_ALWAYS then word_of_int val else DIS_ADAPTIVE)\<rparr>)),
     with_arg k ''level2'' (\<lambda>val. on_host (\<lambda>h. h\<lparr>level2 := word_of_int val\<rparr>)),
     with_arg k ''debug'' (\<lambda>val. on_host (\<lambda>h. h\<lparr>args := word_of_int val AND DB_MASK\<rparr>)),
     with_arg k ''burst'' (\<lambda>val. on_host (\<lambda>h. h\<lparr>dma_mode := (if val \<noteq> 0 then CTRL_BURST else CTRL_DMA)\<rparr>)),
     peek (\<lambda>(h, st). when_do (clock_freq h = WD33C93_FS_16_20)
       (with_arg k ''fast'' (\<lambda>val. on_host (\<lambda>h. h\<lparr>fast := (if val \<noteq> 0 then 1 else 0)\<rparr>)))),
     bnd (ask k ''next'') (\<lambda>r. case r of None \<Rightarrow> ret ()
       | Some (i, val) \<Rightarrow> modify (\<lambda>(h, st). (h, mark_used i st))),
     with_arg k ''proc'' (\<lambda>val. on_host (\<lambda>h. h\<lparr>proc := word_of_int val\<rparr>))]"

text \<open>A configuration step run on the host structure in the world.\<close>

definition configure :: "unit cfg \<Rightarrow> setup_state \<Rightarrow> setup_state drv" where
  "configure m st = (\<lambda>w. case m (hdata w, st) of
       Inl f \<Rightarrow> Inl f
     | Inr (_, (h, st')) \<Rightarrow> Inr (st', w\<lparr>hdata := h\<rparr>))"

definition init_stats :: "nat \<Rightarrow> unit drv" where
  "init_stats i = peek (\<lambda>w.
     seqs [arr_ok (cmd_cnt (hdata w)) i, arr_ok (disc_allowed_cnt (hdata w)) i, arr_ok (disc_done_cnt (hdata w)) i,
           mod_hd (\<lambda>h. h\<lparr>cmd_cnt := (cmd_cnt h)[i := 0], disc_allowed_cnt := (disc_allowed_cnt h)[i := 0],
                         disc_done_cnt := (disc_done_cnt h)[i := 0]\<rparr>)])"

definition init_defaults :: "unit drv" where
  "init_defaults = thn clear_host
     (mod_hd (\<lambda>h. h\<lparr>level2 := L2_BASIC, disconnect := DIS_ADAPTIVE, args := 0,
        default_sx_per := DEFAULT_SX_PER, no_dma := 0,
        proc := PR_VERSION OR PR_INFO OR PR_STATISTICS OR PR_CONNECTED OR PR_INPUTQ OR PR_DISCQ OR PR_STOP,
        dma_cnt := 0, pio_cnt := 0, int_cnt := 0\<rparr>))"

definition wd33c93_init :: "env \<Rightarrow> string option \<Rightarrow> int \<Rightarrow> setup_state \<Rightarrow> setup_state drv" where
  "wd33c93_init e setup_strings freq st =
     bnd (lift (if \<not> done_setup st \<and> setup_strings \<noteq> None then wd33c93_setup setup_strings st else Inr st)) (\<lambda>st.
     bnd (configure (set_clock freq) st) (\<lambda>st.
     thn (mod_hd (\<lambda>h. h\<lparr>dma_bounce_buffer := 0, dma_bounce_len := 0\<rparr>))
    (thn (seqs (map (\<lambda>i. thn (reset_target i) (init_stats i)) [0..<8]))
    (thn init_defaults
    (bnd (configure (config_args e) st) (\<lambda>st.
     thn (seqs [spin_lock, reset_wd33c93, spin_unlock])
         (ret st)))))))"

section \<open>The proc interface\<close>

text \<open>
  One turn of the loop of \<^verbatim>\<open>wd33c93_write_info\<close>, after the separators have been skipped:
  \<open>None\<close> when the keyword is unknown, else the new host structure and the unread text.
\<close>

definition set_fast_opt :: "u32 \<Rightarrow> hostdata \<Rightarrow> hostdata" where
  "set_fast_opt x h = (let v = (if x \<noteq> 0 then 1 else 0) in
     (if ucast v \<noteq> (ucast (fast h) :: u32) then set_resync 0xff h else h)\<lparr>fast := v\<rparr>)"

definition set_nosync_opt :: "u32 \<Rightarrow> hostdata \<Rightarrow> hostdata" where
  "set_nosync_opt x h = (set_resync (x XOR ucast (no_sync h)) h)\<lparr>no_sync := ucast x\<rparr>"

definition write_option :: "('a kernel_scheme) \<Rightarrow> string \<Rightarrow> hostdata \<Rightarrow> (fault + hostdata \<times> string) option" where
  "write_option k bp h =
     (let num = (\<lambda>n f. case simple_strtoul k (drop n bp) of (x, bp') \<Rightarrow> Some (Inr (f x, bp')));
          snum = (\<lambda>n f. case simple_strtol k (drop n bp) of (x, bp') \<Rightarrow> Some (Inr (f x, bp')))
      in if prefix ''debug:'' bp then num 6 (\<lambda>x. h\<lparr>args := x AND DB_MASK\<rparr>)
         else if prefix ''disconnect:'' bp
         then num 11 (\<lambda>x. h\<lparr>disconnect :=
                (if sint x < uint DIS_NEVER \<or> sint x > uint DIS_ALWAYS then DIS_ADAPTIVE else ucast x)\<rparr>)
         else if prefix ''period:'' bp
         then (case simple_strtoul k (drop 7 bp) of (x, bp') \<Rightarrow>
                 Some (case table_period x h of Inl f \<Rightarrow> Inl f | Inr p \<Rightarrow> Inr (h\<lparr>default_sx_per := p\<rparr>, bp')))
         else if prefix ''resync:'' bp then num 7 (\<lambda>x. set_resync x h)
         else if prefix ''proc:'' bp then num 5 (\<lambda>x. h\<lparr>proc := ucast x\<rparr>)
         else if prefix ''nodma:'' bp then num 6 (\<lambda>x. h\<lparr>no_dma := ucast x\<rparr>)
         else if prefix ''level2:'' bp then num 7 (\<lambda>x. h\<lparr>level2 := ucast x\<rparr>)
         else if prefix ''burst:'' bp then snum 6 (\<lambda>x. h\<lparr>dma_mode := (if x \<noteq> 0 then CTRL_BURST else CTRL_DMA)\<rparr>)
         else if prefix ''fast:'' bp then snum 5 (\<lambda>x. set_fast_opt x h)
         else if prefix ''nosync:'' bp then num 7 (\<lambda>x. set_nosync_opt x h)
         else None)"

text \<open>\<open>None\<close> when the loop does not end (the number parser would have to give text back).\<close>

partial_function (option) write_loop ::
  "('a kernel_scheme) \<Rightarrow> string \<Rightarrow> hostdata \<Rightarrow> (fault + hostdata) option" where
  "write_loop k bp h =
     (if bp = [] then Some (Inr h)
      else case write_option k (dropWhile (\<lambda>c. c = CHR '','' \<or> c = CHR '' '') bp) h of
             None \<Rightarrow> Some (Inr h)
           | Some (Inl f) \<Rightarrow> Some (Inl f)
           | Some (Inr (h', bp')) \<Rightarrow> write_loop k bp' h')"

text \<open>\<open>buf[len] = 0\<close>: the text ends at the first NUL of the \<open>len\<close> bytes.\<close>

definition wd33c93_write_info :: "('a kernel_scheme) \<Rightarrow> string \<Rightarrow> nat \<Rightarrow> hostdata \<Rightarrow> (fault + hostdata \<times> nat) option" where
  "wd33c93_write_info k buf len h =
     (case write_loop k (takeWhile (\<lambda>c. c \<noteq> NUL) (take len buf)) h of
        None \<Rightarrow> None
      | Some (Inl f) \<Rightarrow> Some (Inl f)
      | Some (Inr h') \<Rightarrow> Some (Inr (h', len)))"

declare write_loop.simps [code]

end
