(* ===== verification/A3000.thy ===== *)
theory A3000
  imports IntrLife WdSetup
begin

text \<open>
  The Amiga 3000 host adapter (\<^verbatim>\<open>a3000.c\<close>): programming the SDMAC for a DMA transfer, stopping
  it, the interrupt dispatcher, and claiming and releasing the adapter. Transfers from addresses
  that are not longword aligned go through a bounce buffer.
\<close>

section \<open>DMA\<close>

definition memcpy :: "u32 \<Rightarrow> u32 \<Rightarrow> u32 \<Rightarrow> unit drv" where
  "memcpy dst src n = modify (\<lambda>w. w\<lparr>mem := (\<lambda>a. if a - dst < n then mem w (src + (a - dst)) else mem w a)\<rparr>)"

fun kmalloc :: "u32 \<Rightarrow> u32 drv" where
  "kmalloc n w = (case alloc_in w of
      [] \<Rightarrow> Inl Waiting
    | p # ps \<Rightarrow> Inr (p, w\<lparr>alloc_in := ps, events := events w @ [Kmalloc n p]\<rparr>))"

fun rd_ISTR :: "u16 drv" where
  "rd_ISTR w = (case istr_in w of
      [] \<Rightarrow> Inl Waiting
    | v # vs \<Rightarrow> Inr (v, w\<lparr>istr_in := vs, events := events w @ [Rd_ISTR v]\<rparr>))"

declare kmalloc.simps [simp del] rd_ISTR.simps [simp del]

definition wr_reg :: "sdreg \<Rightarrow> u32 \<Rightarrow> unit drv" where
  "wr_reg r v = emit (Wr_reg r v)"

text \<open>A bounce buffer: \<open>None\<close> when it cannot be had, else the bus address to use.\<close>

definition get_bounce :: "kernel \<Rightarrow> cptr \<Rightarrow> u32 \<Rightarrow> u32 option drv" where
  "get_bounce k c dir_in = peek (\<lambda>w.
     let n = (SCp_this_residual (cmds w c) + 511) AND NOT 0x1ff in
     bnd (kmalloc n) (\<lambda>p.
       if p = 0
       then thn (mod_hd (\<lambda>h. h\<lparr>dma_bounce_buffer := p, dma_bounce_len := 0\<rparr>)) (ret None)
       else thn (mod_hd (\<lambda>h. h\<lparr>dma_bounce_buffer := p, dma_bounce_len := n\<rparr>))
           (thn (when_do (dir_in = 0) (memcpy p (SCp_ptr (cmds w c)) (SCp_this_residual (cmds w c))))
                (ret (Some (virt_to_bus k p))))))"

definition start_dma :: "cptr \<Rightarrow> u32 \<Rightarrow> u32 \<Rightarrow> unit drv" where
  "start_dma c dir_in addr = peek (\<lambda>w.
     seqs [mod_hd (\<lambda>h. h\<lparr>dma_dir := dir_in\<rparr>),
           wr_reg CNTR (ucast (CNTR_PDMD OR CNTR_INTEN OR (if dir_in = 0 then CNTR_DDIR else 0))),
           wr_reg ACR addr,
           emit (if dir_in \<noteq> 0 then Cache_clear addr (SCp_this_residual (cmds w c))
                 else Cache_push addr (SCp_this_residual (cmds w c))),
           wr_reg ST_DMA 1])"

definition a3000_dma_setup :: "kernel \<Rightarrow> cptr \<Rightarrow> u32 \<Rightarrow> u32 drv" where
  "a3000_dma_setup k c dir_in = peek (\<lambda>w.
     let addr = virt_to_bus k (SCp_ptr (cmds w c)) in
     bnd (if bit_on addr A3000_XFER_MASK then get_bounce k c dir_in else ret (Some addr)) (\<lambda>a.
       case a of None \<Rightarrow> ret 1 | Some addr \<Rightarrow> thn (start_dma c dir_in addr) (ret 0)))"

lemma rd_ISTR_shorter: "rd_ISTR w = Inr (v, w') \<Longrightarrow> length (istr_in w') < length (istr_in w)"
  by (auto simp: rd_ISTR.simps split: list.splits)

text \<open>\<open>while (!(regs->ISTR & ISTR_FE_FLG)) barrier();\<close>\<close>

function wait_flush :: "unit drv" where
  "wait_flush w =
     (case rd_ISTR w of
        Inl f \<Rightarrow> Inl f
      | Inr (v, w1) \<Rightarrow> if bit_on v ISTR_FE_FLG then Inr ((), w1) else wait_flush w1)"
  by pat_completeness auto
termination
  by (relation "measure (\<lambda>w. length (istr_in w))") (auto dest: rd_ISTR_shorter)

declare wait_flush.simps [simp del]

definition put_bounce :: "unit drv" where
  "put_bounce = peek (\<lambda>w.
     thn (emit (Kfree (dma_bounce_buffer (hdata w))))
         (mod_hd (\<lambda>h. h\<lparr>dma_bounce_buffer := 0, dma_bounce_len := 0\<rparr>)))"

definition a3000_dma_stop :: "cptr option \<Rightarrow> u32 \<Rightarrow> unit drv" where
  "a3000_dma_stop SCpnt status = peek (\<lambda>w.
     seqs [wr_reg CNTR (ucast (CNTR_PDMD OR (if dma_dir (hdata w) = 0 then CNTR_DDIR else 0))),
           when_do (dma_dir (hdata w) \<noteq> 0) (thn (wr_reg FLUSH 1) wait_flush),
           wr_reg CINT 1,
           wr_reg SP_DMA 1,
           wr_reg CNTR (ucast (CNTR_PDMD OR CNTR_INTEN)),
           when_do (status \<noteq> 0 \<and> dma_bounce_buffer (hdata w) \<noteq> 0)
             (case SCpnt of
                Some c \<Rightarrow>
                  thn (when_do (dma_dir (hdata w) \<noteq> 0)
                         (memcpy (SCp_ptr (cmds w c)) (dma_bounce_buffer (hdata w))
                            (SCp_this_residual (cmds w c))))
                      put_bounce
              | None \<Rightarrow> put_bounce)])"

definition a3000_env :: "kernel \<Rightarrow> env" where
  "a3000_env k = kernel.extend k
     \<lparr>dma_setup = a3000_dma_setup k, dma_stop = a3000_dma_stop\<rparr>"

section \<open>Interrupts\<close>

datatype irqreturn = IRQ_NONE | IRQ_HANDLED

definition a3000_intr :: "kernel \<Rightarrow> irqreturn drv" where
  "a3000_intr k = bnd rd_ISTR (\<lambda>status.
     if \<not> bit_on status ISTR_INT_P then ret IRQ_NONE
     else if bit_on status ISTR_INTS
     then thn host_spin_lock
         (thn (wd33c93_intr (a3000_env k))
         (thn host_spin_unlock
              (ret IRQ_HANDLED)))
     else ret IRQ_NONE)"

section \<open>Probing and removal\<close>

text \<open>
  What the platform answers: whether the device has its memory resource, whether the region is
  free, the private memory of a new host (\<open>None\<close> when there is none to be had) and the results of
  claiming the interrupt and of adding the host. Claims appear in the log when they succeed.
\<close>

record platform =
  has_resource :: bool
  region_free :: bool
  host_memory :: "hostdata option"
  irq_error :: int
  host_error :: int

datatype probe_result = Bound | ENODEV | EBUSY | ENOMEM | Error int

record host_template =
  can_queue :: nat
  template_id :: u8
  cmd_per_lun :: nat

definition amiga_a3000_scsi_template :: host_template where
  "amiga_a3000_scsi_template = \<lparr>can_queue = CAN_QUEUE, template_id = 7, cmd_per_lun = CMD_PER_LUN\<rparr>"

definition scsi_host_alloc :: "host_template \<Rightarrow> hostdata \<Rightarrow> unit drv" where
  "scsi_host_alloc t h = thn (emit Host_alloc) (modify (\<lambda>w. w\<lparr>hdata := h, this_id := template_id t\<rparr>))"

text \<open>The three labels at the end of the function, each falling through to the next.\<close>

definition fail_alloc :: "probe_result \<Rightarrow> probe_result drv" where
  "fail_alloc error = thn (emit Release_region) (ret error)"

definition fail_irq :: "probe_result \<Rightarrow> probe_result drv" where
  "fail_irq error = thn (emit Host_put) (fail_alloc error)"

definition fail_host :: "probe_result \<Rightarrow> probe_result drv" where
  "fail_host error = thn (emit Free_irq) (fail_irq error)"

definition claim_irq :: "platform \<Rightarrow> probe_result drv" where
  "claim_irq p =
     (if irq_error p \<noteq> 0 then fail_irq (Error (irq_error p))
      else thn (emit Request_irq)
          (thn (wr_reg CNTR (ucast (CNTR_PDMD OR CNTR_INTEN)))
               (if host_error p \<noteq> 0 then fail_host (Error (host_error p))
                else thn (emit Add_host) (thn (emit Scan_host) (ret Bound)))))"

text \<open>The setup state is the static data of the other file; it is handed back with the result.\<close>

definition amiga_a3000_scsi_probe ::
    "platform \<Rightarrow> kernel \<Rightarrow> string option \<Rightarrow> setup_state \<Rightarrow> (probe_result \<times> setup_state) drv" where
  "amiga_a3000_scsi_probe p k setup_strings st =
     (let leave = (\<lambda>m. bnd m (\<lambda>r. ret (r, st)))
      in if \<not> has_resource p then leave (ret ENODEV)
         else if \<not> region_free p then leave (ret EBUSY)
         else thn (emit Request_region)
           (case host_memory p of
              None \<Rightarrow> leave (fail_alloc ENOMEM)
            | Some h \<Rightarrow>
                thn (scsi_host_alloc amiga_a3000_scsi_template h)
               (thn (wr_reg DAWR (ucast DAWR_A3000))
               (thn (mod_hd (\<lambda>h. h\<lparr>no_sync := 0xff, fast := 0, dma_mode := CTRL_DMA\<rparr>))
               (bnd (wd33c93_init (a3000_env k) setup_strings (uint WD33C93_FS_12_15) st) (\<lambda>st.
                bnd (claim_irq p) (\<lambda>r. ret (r, st))))))))"

definition amiga_a3000_scsi_remove :: "unit drv" where
  "amiga_a3000_scsi_remove =
     seqs [wr_reg CNTR 0, emit Remove_host, emit Free_irq, emit Host_put, emit Release_region]"

section \<open>The DMA operations keep the laws of the interface\<close>

lemma dma_free_upd [simp]:
  "dma_free (w\<lparr>mem := m\<rparr>) = dma_free w"
  "dma_free (w\<lparr>hdata := (hdata w)\<lparr>dma_dir := d\<rparr>\<rparr>) = dma_free w"
  "dma_free (w\<lparr>hdata := (hdata w)\<lparr>dma_bounce_buffer := p, dma_bounce_len := n\<rparr>\<rparr>) = dma_free w"
  "\<not> is_done ev \<Longrightarrow> dma_free (w\<lparr>events := events w @ [ev]\<rparr>) = dma_free w"
  "\<not> is_done ev \<Longrightarrow> dma_free (w\<lparr>istr_in := x, events := events w @ [ev]\<rparr>) = dma_free w"
  "\<not> is_done ev \<Longrightarrow> dma_free (w\<lparr>alloc_in := y, events := events w @ [ev]\<rparr>) = dma_free w"
  by (simp_all add: dma_free_def io_free_def)

named_theorems dmak "a program is part of a DMA operation"

lemmas [dmak] = keeps_ret keeps_throw keeps_bnd keeps_thn keeps_peek keeps_if keeps_when
  keeps_option keeps_seqs_Nil keeps_seqs_Cons

lemma dma_parts [dmak]: "keeps dma_free (wr_reg r v)" "keeps dma_free (memcpy d s n)"
  "keeps dma_free (kmalloc n)" "keeps dma_free rd_ISTR" "keeps dma_free put_bounce"
  unfolding wr_reg_def memcpy_def put_bounce_def
  by (auto simp: keeps_def run_simps kmalloc.simps rd_ISTR.simps dma_free_def io_free_def split: list.splits)

lemma keeps_wait_flush [dmak]: "keeps dma_free wait_flush"
proof (rule keepsI)
  fix w x w'
  show "wait_flush w = Inr (x, w') \<Longrightarrow> dma_free w' = dma_free w"
  proof (induction w arbitrary: x w' rule: wait_flush.induct)
    case (1 w)
    show ?case
      using "1.prems" "1.IH" by (subst (asm) wait_flush.simps)
        (auto split: sum.splits if_splits prod.splits dest!: keepsD [OF dma_parts(4)])
  qed
qed

lemma keeps_get_bounce [dmak]: "keeps dma_free (get_bounce k c d)"
  unfolding get_bounce_def Let_def by (intro dmak) (auto intro!: keeps_mod_hd)

lemma keeps_start_dma [dmak]: "keeps dma_free (start_dma c d a)"
  unfolding start_dma_def by (intro dmak) (auto intro!: keeps_mod_hd keeps_emit)

lemma a3000_setup_free: "keeps dma_free (a3000_dma_setup k c d)"
  unfolding a3000_dma_setup_def Let_def by (intro dmak)

lemma a3000_stop_free: "keeps dma_free (a3000_dma_stop p s)"
  unfolding a3000_dma_stop_def by (intro dmak)

lemma a3000_env_sel [simp]: "dma_setup (a3000_env k) = a3000_dma_setup k" "dma_stop (a3000_env k) = a3000_dma_stop"
  by (simp_all add: a3000_env_def kernel.defs)

interpretation a3k: dma_host "a3000_env k" for k
  by unfold_locales (simp_all add: a3000_setup_free a3000_stop_free)

end
