(* ===== verification/Lifecycle.thy ===== *)
theory Lifecycle
  imports A3000
begin

text \<open>
  Every entry point of the driver against the abstract life of commands: queueing, the interrupt
  of the host adapter, abort and reset; then whole runs of the driver.
\<close>

section \<open>Queueing a command\<close>

lemma R_scribble:
  assumes "c \<notin> set (v_in v)" and "c \<notin> set (v_dis v)"
    and f: "\<And>k. device (f k) = device k"
  shows "hoare (R A v B) (mod_cmd c f) (\<lambda>_. R A v B)"
proof (rule hoareI)
  fix w x w' assume r: "R A v B w" and m: "mod_cmd c f w = Inr (x, w')"
  then have w': "w' = w\<lparr>cmds := (cmds w)(c := f (cmds w c))\<rparr>" by (simp add: mod_cmd_run)
  have "queue_of input_Q w' (v_in v)" "queue_of disconnected_Q w' (v_dis v)"
    using r assms(1,2) by (auto simp: R_def w' intro: queue_of_frame)
  moreover have "addr_of w' = addr_of w" by (rule ext) (simp add: addr_of_def w' f)
  ultimately show "R A v B w'" using r by (simp add: R_def w')
qed

definition front_of :: "world \<Rightarrow> cptr \<Rightarrow> bool" where
  "front_of w c \<longleftrightarrow> (case cmnd (cmds w c) of op # _ \<Rightarrow> op = REQUEST_SENSE | [] \<Rightarrow> False)"

definition accept :: "bool \<Rightarrow> cptr \<Rightarrow> cview \<Rightarrow> cview" where
  "accept front c v = v\<lparr>v_in := (if front then c # v_in v else v_in v @ [c])\<rparr>"

lemma R_enqueue:
  assumes r: "R A v B w" and m: "enqueue c w = Inr (x, w')"
    and fresh: "c \<notin> set (v_in v)" "c \<notin> set (v_dis v)" and nil: "host_scribble (cmds w c) = None"
    and disj: "set (v_in v) \<inter> set (v_dis v) = {}"
  shows "R A (accept (front_of w c) c v) B w'"
proof -
  have q: "linked (next_of w) (input_Q (hdata w)) (v_in v)" using r by (simp add: R_def queue_of_def)
  show ?thesis
  proof (cases "v_in v = [] \<or> front_of w c")
    case True
    then have "w' = push_q input_Q input_Q_update c w"
      using m q by (auto simp: enqueue_def run_simps front_of_def split: if_splits list.splits)
    moreover have "R A (v\<lparr>v_in := c # v_in v\<rparr>) B (push_q input_Q input_Q_update c w)"
      using hoareD [OF R_push_in [OF fresh] modify_run r] .
    moreover have "accept (front_of w c) c v = v\<lparr>v_in := c # v_in v\<rparr>"
      using True by (auto simp: accept_def)
    ultimately show ?thesis by simp
  next
    case False
    then obtain p where p: "input_Q (hdata w) = Some p" using q by (cases "v_in v") auto
    have "find_end (next_of w) p = Inr (last (v_in v))"
      using find_end_linked [of "next_of w" p "v_in v"] q p by simp
    then have w': "w' = link_after (last (v_in v)) c w"
      using m False p by (auto simp: enqueue_def run_simps front_of_def split: if_splits list.splits)
    have "last (v_in v) \<notin> set (v_dis v)" using False disj by (auto dest: last_in_set)
    moreover have "queue_of input_Q w (v_in v)" "queue_of disconnected_Q w (v_dis v)"
      using r by (simp_all add: R_def)
    ultimately have "queue_of input_Q w' (v_in v @ [c])" "queue_of disconnected_Q w' (v_dis v)"
      using iq.append [of w "v_in v" c] iq.append_other [of w "v_dis v"] False nil fresh by (auto simp: w')
    moreover have "addr_of w' = addr_of w" by (rule ext) (simp add: addr_of_def w' link_after_def)
    ultimately show ?thesis
      using r False by (simp add: R_def accept_def w' link_after_def)
  qed
qed

lemma keeps_init_SCp: "keeps qcore (init_SCp c)"
  unfolding init_SCp_def by (intro qk keeps_peek) (auto intro!: qk split: list.splits)

lemma wf_accept:
  "wf_view A v \<Longrightarrow> c \<notin> set (active v) \<Longrightarrow> wf_view A (accept f c v)"
  by (auto simp: wf_view_def active_def accept_def outstanding_def)

lemma active_accept: "set (active (accept f c v)) = insert c (set (active v))"
  by (auto simp: active_def accept_def outstanding_def)

lemma account_accept: "account (accept f c v) = add_mset c (account v)"
  by (simp add: account_def active_def accept_def outstanding_def)

context dma_host begin

lemma queue_refines:
  assumes v: "wf_view A v" and w: "REP A v w" and fresh: "c \<notin> set (active v)" and ok: "ok_addr A c"
    and m: "wd33c93_queuecommand_lck e c w = Inr (x, w')"
  shows "x = 0 \<and> (\<exists>v'. exec_spec A (accept (front_of w c) c v) v' \<and> REP A v' w')"
proof -
  let ?B = "A ` set (outstanding v)" and ?f = "\<lambda>k :: scsi_cmnd. k\<lparr>host_scribble := None, result := 0\<rparr>"
  have fr: "c \<notin> set (v_in v)" "c \<notin> set (v_dis v)" and disj: "set (v_in v) \<inter> set (v_dis v) = {}"
    using fresh v by (auto simp: active_def outstanding_def wf_view_def)
  have r: "R A v ?B w" and all: "\<forall>c \<in> set (active v). ok_addr A c" using w by (auto simp: REP_def)
  obtain w1 w2 w3 w4 w5 w6 w7 where
      1: "mod_cmd c ?f w = Inr ((), w1)" and 2: "init_SCp c w1 = Inr ((), w2)"
    and 3: "mod_cmd c (\<lambda>k. k\<lparr>SCp_Status := ILLEGAL_STATUS_BYTE\<rparr>) w2 = Inr ((), w3)"
    and 4: "spin_lock w3 = Inr ((), w4)" and 5: "enqueue c w4 = Inr ((), w5)"
    and 6: "wd33c93_execute e w5 = Inr ((), w6)" and 7: "spin_unlock w6 = Inr ((), w7)"
    and x: "x = 0" "w' = w7"
    using m unfolding wd33c93_queuecommand_lck_def by (auto simp: ret_run elim!: thn_InrE)
  have r1: "R A v ?B w1" by (rule hoareD [OF R_scribble [OF fr] 1 r]) simp
  have r2: "R A v ?B w2" using hoareD [OF R_keeps [OF keeps_init_SCp] 2 r1] .
  have k3: "keeps qcore (mod_cmd c (\<lambda>k. k\<lparr>SCp_Status := ILLEGAL_STATUS_BYTE\<rparr>))" by (intro qk; simp)
  have r3: "R A v ?B w3" using hoareD [OF R_keeps [OF k3] 3 r2] .
  have r4: "R A v ?B w4" using hoareD [OF R_keeps [OF keeps_locks(1)] 4 r3] .
  have same: "host_scribble (cmds w4 c) = None" "cmnd (cmds w4 c) = cmnd (cmds w c)"
    using 1 2 3 4 by (auto simp: run_simps init_SCp_def spin_lock_def split: if_splits list.splits prod.splits)
  then have fo: "front_of w4 c = front_of w c" by (simp add: front_of_def)
  have r5: "R A (accept (front_of w c) c v) ?B w5"
    using R_enqueue [OF r4 5 fr same(1) disj] by (simp add: fo)
  then have rep: "REP A (accept (front_of w c) c v) w5"
    using all ok unfolding REP_def active_accept by (auto simp: accept_def)
  obtain v' where "exec_spec A (accept (front_of w c) c v) v'" "REP A v' w6"
    using hoareD [OF execute_refines [OF wf_accept [OF v fresh]] 6 rep] by blast
  moreover have "REP A v' w7" using REP_keepsD [OF keeps_locks(2) 7] calculation by blast
  ultimately show ?thesis using x by blast
qed

end

section \<open>Abort\<close>

lemma keeps_flush_fifo [qk]: "keeps qcore (flush_fifo n)"
  by (induction n) (auto intro!: qk)

lemma keeps_wait_cip [qk]: "keeps qcore (wait_cip n a)"
  by (induction n arbitrary: a) (auto intro!: qk)

lemma keeps_irq [qk]: "keeps qcore (emit Disable_irq)" "keeps qcore (emit Enable_irq)"
  by (rule keeps_io_qcore, rule keeps_emit_io, simp)+

lemma search_is_cmd:
  assumes "search (is_cmd c) nxt p = Inr (prev, cur)" and "linked nxt p xs"
  obtains (none) "cur = None" and "c \<notin> set xs"
  | (found) ys zs where "cur = Some c" and "xs = ys @ c # zs" and "prev = last_opt ys"
proof -
  have st: "is_cmd c y = Inr (y = c)" for y by (simp add: is_cmd_def)
  show thesis by (rule search_linkedE [OF assms st], rule none, simp, blast, rule found) auto
qed

lemma R_enable_done:
  "hoare (R A v B) (seqs [emit Enable_irq, emit (Scsi_done c)]) (\<lambda>_. R A (v\<lparr>v_done := v_done v @ [c]\<rparr>) B)"
  unfolding seqs.simps
  by (rule hoare_thn [OF R_keeps [OF keeps_irq(2)]], rule hoare_thn [OF R_done], rule R_keeps [OF keeps_ret])

lemma abort_queued_run:
  assumes v: "wf_view A v" and w: "REP A v w" and q: "v_in v = xs @ c # ys"
    and m: "abort_queued e (last_opt xs) c w = Inr (r, w')"
  shows "r = SUCCESS \<and> REP A (v\<lparr>v_in := xs @ ys, v_done := v_done v @ [c]\<rparr>) w'"
proof -
  let ?u = "v\<lparr>v_in := xs @ ys\<rparr>" let ?B = "A ` set (outstanding v)"
  have rr: "R A v ?B w" and all: "\<forall>c \<in> set (active v). ok_addr A c" using w by (auto simp: REP_def)
  have disj: "set xs \<inter> set (v_dis v) = {}" and fresh: "c \<notin> set (v_in ?u)" "c \<notin> set (v_dis ?u)"
    using v q by (auto simp: wf_view_def active_def outstanding_def)
  have k: "keeps qcore (mod_cmd c (\<lambda>k. k\<lparr>result := x\<rparr>))" for x by (intro qk; simp)
  have "hoare (R A v ?B) (seqs [modify (unlink_q input_Q_update (last_opt xs) c),
                mod_cmd c (\<lambda>k. k\<lparr>host_scribble := None\<rparr>),
                mod_cmd c (\<lambda>k. k\<lparr>result := push_bit 16 (DID_ABORT e)\<rparr>), emit Enable_irq,
                emit (Scsi_done c)]) (\<lambda>_. R A (?u\<lparr>v_done := v_done ?u @ [c]\<rparr>) ?B)"
    unfolding seqs.simps
    by (rule hoare_thn [OF R_unlink_in [OF q disj]], rule hoare_thn [OF R_scribble [OF fresh]], simp,
        rule hoare_thn [OF R_keeps [OF k]], rule R_enable_done [unfolded seqs.simps])
  from hoareD [OF this _ rr] m have "r = SUCCESS \<and> R A (?u\<lparr>v_done := v_done ?u @ [c]\<rparr>) ?B w'"
    by (auto simp: abort_queued_def ret_run simp del: seqs.simps elim!: thn_InrE)
  then show ?thesis using all q by (auto simp: REP_def active_def outstanding_def)
qed

context dma_host begin

lemma abort_connected_run:
  assumes v: "wf_view A v" and w: "REP A v w" and con: "v_con v = Some c"
    and m: "abort_connected e c w = Inr (r, w')"
  shows "r = SUCCESS \<and> (\<exists>v'. exec_spec A (v\<lparr>v_con := None\<rparr>) v' \<and> REP A (v'\<lparr>v_done := v_done v @ [c]\<rparr>) w')"
proof -
  let ?u = "v\<lparr>v_con := None\<rparr>" let ?B = "A ` set (outstanding v)"
  have rr: "R A v ?B w" and all: "\<forall>c \<in> set (active v). ok_addr A c" using w by (auto simp: REP_def)
  have ok: "ok_addr A c" using all active_ptr [of v c] con by simp
  have wu: "wf_view A ?u" using v by (auto simp: wf_view_def active_def outstanding_def)
  have k: "keeps qcore (mod_cmd c (\<lambda>k. k\<lparr>result := x\<rparr>))" for x by (intro qk; simp)
  have kd: "keeps qcore (abort_chip e c)"
    unfolding abort_chip_def by (intro qk stop_qcore; simp)
  have con': "hoare (R A v B) (mod_hd (\<lambda>h. h\<lparr>connected := None, state := S_UNCONNECTED\<rparr>)) (\<lambda>_. R A ?u B)" for B
    unfolding mod_hd_def by (rule hoare_modify) (simp add: R_def queue_of_hdata)
  have rep: "R A ?u (?B - {A c}) x \<Longrightarrow> REP A ?u x" for x
    using unique_con [OF v con] all by (auto simp: REP_def active_def outstanding_def)
  have ex: "hoare (R A ?u (?B - {A c})) (wd33c93_execute e) (\<lambda>_ w. \<exists>v'. exec_spec A ?u v' \<and> REP A v' w)"
    by (rule hoare_pre [OF execute_refines [OF wu]]) (rule rep)
  have tail: "hoare (\<lambda>w. \<exists>v'. exec_spec A ?u v' \<and> REP A v' w) (seqs [emit Enable_irq, emit (Scsi_done c)])
      (\<lambda>_ w. \<exists>v'. exec_spec A ?u v' \<and> REP A (v'\<lparr>v_done := v_done v @ [c]\<rparr>) w)"
  proof (rule hoareI, elim exE conjE)
    fix w x w' v'
    assume s: "exec_spec A ?u v'" and r: "REP A v' w" and m: "seqs [emit Enable_irq, emit (Scsi_done c)] w = Inr (x, w')"
    have "R A (v'\<lparr>v_done := v_done v' @ [c]\<rparr>) (A ` set (outstanding v')) w'"
      using hoareD [OF R_enable_done m] r by (simp add: REP_def)
    moreover have "v_done v' = v_done v" using exec_spec_done [OF s] by simp
    ultimately show "\<exists>v'. exec_spec A ?u v' \<and> REP A (v'\<lparr>v_done := v_done v @ [c]\<rparr>) w'"
      using s r by (intro exI [of _ v']) (auto simp: REP_def active_def)
  qed
  have mid: "hoare (R A v ?B) (seqs [clear_busy c,
      mod_hd (\<lambda>h. h\<lparr>connected := None, state := S_UNCONNECTED\<rparr>),
      mod_cmd c (\<lambda>k. k\<lparr>result := push_bit 16 (DID_ABORT e)\<rparr>)]) (\<lambda>_. R A ?u (?B - {A c}))"
    unfolding seqs.simps
    by (rule hoare_thn [OF R_clear_busy [OF ok]], rule hoare_thn [OF con'],
        rule hoare_thn [OF R_keeps [OF k]], rule R_keeps [OF keeps_ret])
  have "hoare (R A v ?B) (abort_connected e c) (\<lambda>r w. r = SUCCESS \<and>
      (\<exists>v'. exec_spec A ?u v' \<and> REP A (v'\<lparr>v_done := v_done v @ [c]\<rparr>) w))"
    unfolding abort_connected_def
    by (rule hoare_thn [OF R_keeps [OF kd]], rule hoare_thn [OF mid], rule hoare_thn [OF ex],
        rule hoare_thn [OF tail], rule hoare_ret) simp
  from hoareD [OF this m rr] show ?thesis .
qed

lemma abort_missing_run:
  assumes v: "wf_view A v" and rep: "REP A v w"
    and m: "bnd (lift (search (is_cmd c) (next_of w) (disconnected_Q (hdata w)))) (\<lambda>(_, parked).
      if parked \<noteq> None then thn (emit Enable_irq) (ret FAILED)
      else thn (wd33c93_execute e) (thn (emit Enable_irq) (ret FAILED))) w = Inr (r, w')"
  shows "r = FAILED \<and> (REP A v w' \<or> (\<exists>v'. exec_spec A v v' \<and> REP A v' w'))"
proof -
  let ?P = "\<lambda>w'. \<exists>v'. exec_spec A v v' \<and> REP A v' w'"
  have h: "hoare (REP A v) (thn (wd33c93_execute e) (thn (emit Enable_irq) (ret FAILED))) (\<lambda>r w. r = FAILED \<and> ?P w)"
    by (rule hoare_thn [OF execute_refines [OF v]], rule hoare_thn [where R = ?P])
      (auto simp: hoare_def ret_run intro: REP_keepsD [OF keeps_irq(2)])
  have h2: "hoare (REP A v) (thn (emit Enable_irq) (ret FAILED)) (\<lambda>r w. r = FAILED \<and> REP A v w)"
    by (rule hoare_thn [OF REP_keeps [OF keeps_irq(2)]], rule hoare_ret) simp
  show ?thesis
    using m hoareD [OF h _ rep] hoareD [OF h2 _ rep]
    by (auto simp: bnd_run lift_run split: sum.splits prod.splits if_splits)
qed

lemma abort_refines:
  assumes v: "wf_view A v" and w: "REP A v w" and m: "wd33c93_abort e c w = Inr (r, w')"
  shows "\<exists>v'. (c_step A)\<^sup>*\<^sup>* v v' \<and> wf_view A v' \<and> REP A v' w' \<and>
     (if c \<in> set (v_in v) \<or> v_con v = Some c then r = SUCCESS \<and> v_done v' = v_done v @ [c]
      else r = FAILED \<and> v_done v' = v_done v) \<and> (blocked A v \<longrightarrow> blocked A v')"
proof -
  obtain w1 where 1: "emit Disable_irq w = Inr ((), w1)"
    and m1: "peek (\<lambda>w. bnd (lift (search (is_cmd c) (next_of w) (input_Q (hdata w)))) (\<lambda>(prev, queued).
       if queued \<noteq> None then abort_queued e prev c
       else if connected (hdata w) = Some c then abort_connected e c
       else bnd (lift (search (is_cmd c) (next_of w) (disconnected_Q (hdata w)))) (\<lambda>(_, parked).
         if parked \<noteq> None then thn (emit Enable_irq) (ret FAILED)
         else thn (wd33c93_execute e) (thn (emit Enable_irq) (ret FAILED))))) w1 = Inr (r, w')"
    using m unfolding wd33c93_abort_def by (auto elim!: thn_InrE)
  have r1: "REP A v w1" using REP_keepsD [OF keeps_irq(1) 1 w] .
  have q: "linked (next_of w1) (input_Q (hdata w1)) (v_in v)" using r1 by (simp add: REP_def R_def queue_of_def)
  from m1 obtain prev cur where s: "search (is_cmd c) (next_of w1) (input_Q (hdata w1)) = Inr (prev, cur)"
    and k: "(if cur \<noteq> None then abort_queued e prev c
       else if connected (hdata w1) = Some c then abort_connected e c
       else bnd (lift (search (is_cmd c) (next_of w1) (disconnected_Q (hdata w1)))) (\<lambda>(_, parked).
         if parked \<noteq> None then thn (emit Enable_irq) (ret FAILED)
         else thn (wd33c93_execute e) (thn (emit Enable_irq) (ret FAILED)))) w1 = Inr (r, w')"
    by (auto simp: peek_run bnd_run lift_run split: sum.splits prod.splits)
  show ?thesis using s q
  proof (cases rule: search_is_cmd)
    case (found ys zs)
    let ?v = "v\<lparr>v_in := ys @ zs, v_done := v_done v @ [c]\<rparr>"
    have "c_step A v ?v" by (rule c_step.abort_queued [OF found(2)])
    moreover have "r = SUCCESS \<and> REP A ?v w'"
      using abort_queued_run [OF v r1 found(2)] k found by simp
    moreover have "blocked A v \<longrightarrow> blocked A ?v" using found by (auto simp: blocked_def)
    ultimately show ?thesis using found v by (intro exI [of _ ?v]) (auto intro: c_step_wf)
  next
    case none
    show ?thesis
    proof (cases "v_con v = Some c")
      case True
      then have "abort_connected e c w1 = Inr (r, w')" using k none REP_queues(3) [OF r1] by simp
      from abort_connected_run [OF v r1 True this] obtain u where
        u: "r = SUCCESS" "exec_spec A (v\<lparr>v_con := None\<rparr>) u" "REP A (u\<lparr>v_done := v_done v @ [c]\<rparr>) w'" by blast
      let ?f = "v\<lparr>v_con := None, v_done := v_done v @ [c]\<rparr>"
      have s1: "c_step A v ?f" by (rule finish_con_step [OF True])
      have "(c_step A)\<^sup>*\<^sup>* ?f (u\<lparr>v_done := v_done v @ [c]\<rparr>)"
        using exec_spec_steps [OF exec_spec_frame [OF u(2), of "v_done v @ [c]"]] by simp
      then have "(c_step A)\<^sup>*\<^sup>* v (u\<lparr>v_done := v_done v @ [c]\<rparr>)" using s1 by (meson converse_rtranclp_into_rtranclp)
      moreover have "blocked A (u\<lparr>v_done := v_done v @ [c]\<rparr>)" using exec_spec_blocked [OF u(2)] by simp
      ultimately show ?thesis using u True c_steps_wf v by (intro exI [of _ "u\<lparr>v_done := v_done v @ [c]\<rparr>"]) auto
    next
      case False
      then have "r = FAILED \<and> (REP A v w' \<or> (\<exists>v'. exec_spec A v v' \<and> REP A v' w'))"
        using k none REP_queues(3) [OF r1] by (intro abort_missing_run [OF v r1]) simp
      then show ?thesis
        using False none v exec_spec_steps exec_spec_done exec_spec_blocked c_steps_wf by (metis (no_types, lifting) rtranclp.rtrancl_refl)
    qed
  qed
qed

end

section \<open>Reset\<close>

lemma reset_target_run:
  assumes "length (busy (hdata w)) = 8" "length (sync_xfer (hdata w)) = 8" "length (sync_stat (hdata w)) = 8"
    and "i < 8" and "reset_target i w = Inr (x, w')"
  shows "\<exists>v. calc_sync_xfer (DEFAULT_SX_PER div 4) DEFAULT_SX_OFF 0 (sx_table (hdata w)) = Inr v \<and>
    w' = w\<lparr>hdata := (hdata w)\<lparr>busy := (busy (hdata w))[i := 0], sync_xfer := (sync_xfer (hdata w))[i := v],
                               sync_stat := (sync_stat (hdata w))[i := SS_UNSET]\<rparr>\<rparr>"
  using assms by (auto simp: reset_target_def run_simps split: sum.splits)

lemma reset_targets_run:
  assumes len: "length (busy (hdata w)) = 8" "length (sync_xfer (hdata w)) = 8" "length (sync_stat (hdata w)) = 8"
    and "n \<le> 8" and "seqs (map reset_target [0..<n]) w = Inr (x, w')"
  shows "\<exists>b xs ss. w' = w\<lparr>hdata := (hdata w)\<lparr>busy := b, sync_xfer := xs, sync_stat := ss\<rparr>\<rparr> \<and>
     length b = 8 \<and> length xs = 8 \<and> length ss = 8 \<and>
     (\<forall>i < n. b ! i = 0 \<and> ss ! i = SS_UNSET \<and>
       calc_sync_xfer (DEFAULT_SX_PER div 4) DEFAULT_SX_OFF 0 (sx_table (hdata w)) = Inr (xs ! i))"
  using assms(4,5)
proof (induction n arbitrary: x w')
  case 0
  then show ?case using len
    by (rule_tac x = "busy (hdata w)" in exI, rule_tac x = "sync_xfer (hdata w)" in exI,
        rule_tac x = "sync_stat (hdata w)" in exI) (simp add: ret_run)
next
  case (Suc n)
  from Suc.prems(2) obtain w1 where 1: "seqs (map reset_target [0..<n]) w = Inr ((), w1)"
    and 2: "reset_target n w1 = Inr ((), w')"
    by (auto simp: seqs_append ret_run elim!: thn_InrE)
  obtain b xs ss where s: "w1 = w\<lparr>hdata := (hdata w)\<lparr>busy := b, sync_xfer := xs, sync_stat := ss\<rparr>\<rparr>"
     "length b = 8" "length xs = 8" "length ss = 8"
     "\<forall>i < n. b ! i = 0 \<and> ss ! i = SS_UNSET \<and>
       calc_sync_xfer (DEFAULT_SX_PER div 4) DEFAULT_SX_OFF 0 (sx_table (hdata w)) = Inr (xs ! i)"
    using Suc.IH [OF _ 1] Suc.prems(1) by auto
  obtain v where "calc_sync_xfer (DEFAULT_SX_PER div 4) DEFAULT_SX_OFF 0 (sx_table (hdata w)) = Inr v"
    "w' = w\<lparr>hdata := (hdata w)\<lparr>busy := b[n := 0], sync_xfer := xs[n := v], sync_stat := ss[n := SS_UNSET]\<rparr>\<rparr>"
    using reset_target_run [OF _ _ _ _ 2] s Suc.prems(1) by auto
  with s Suc.prems(1) show ?case
    by (intro exI [of _ "b[n := 0]"] exI [of _ "xs[n := v]"] exI [of _ "ss[n := SS_UNSET]"])
      (auto simp: nth_list_update less_Suc_eq)
qed

definition idle_view :: "cptr list \<Rightarrow> cview" where
  "idle_view d = \<lparr>v_in = [], v_dis = [], v_sel = None, v_con = None, v_done = d\<rparr>"

lemma busy_set_zero: "\<forall>i < length b. b ! i = 0 \<Longrightarrow> busy_set b = {}"
  by (auto simp: busy_set_def)

lemma REP_idle:
  "input_Q (hdata w) = None \<Longrightarrow> disconnected_Q (hdata w) = None \<Longrightarrow> selecting (hdata w) = None \<Longrightarrow>
   connected (hdata w) = None \<Longrightarrow> length (busy (hdata w)) = 8 \<Longrightarrow> \<forall>i < 8. busy (hdata w) ! i = 0 \<Longrightarrow>
   filter is_done (events w) = map Scsi_done d \<Longrightarrow> REP (addr_of w) (idle_view d) w"
  by (simp add: REP_def R_def idle_view_def outstanding_def active_def queue_of_def busy_set_zero)

lemma wf_idle: "wf_view A (idle_view d)"
  by (simp add: wf_view_def idle_view_def active_def outstanding_def)

lemma keeps_wait_reset [keeps_intros]: "keeps io_free wait_reset"
proof (rule keepsI)
  fix w x w'
  show "wait_reset w = Inr (x, w') \<Longrightarrow> io_free w' = io_free w"
  proof (induction w arbitrary: x w' rule: wait_reset.induct)
    case (1 w)
    show ?case
      using "1.prems" "1.IH" by (subst (asm) wait_reset.simps)
        (auto split: sum.splits if_splits prod.splits dest!: keepsD [OF io_keeps(5)])
  qed
qed

text \<open>The chip reset learns the chip and may switch fast mode off; nothing else changes in memory.\<close>

definition reset_free :: "world \<Rightarrow> world" where
  "reset_free w = (io_free w)\<lparr>hdata := (hdata w)\<lparr>chip := 0, microcode := 0, fast := 0\<rparr>\<rparr>"

lemma keeps_io_reset: "keeps io_free m \<Longrightarrow> keeps reset_free m"
proof (rule keepsI)
  fix w x w' assume "keeps io_free m" and "m w = Inr (x, w')"
  then have "io_free w' = io_free w" by (rule keepsD)
  moreover have "hdata w' = hdata w" using calculation by (rule io_free_eqD)
  ultimately show "reset_free w' = reset_free w" by (simp add: reset_free_def)
qed

lemma keeps_reset: "keeps reset_free reset_wd33c93"
  unfolding reset_wd33c93_def detect_chip_def set_chip_def seqs.simps
  by (intro keeps_ret keeps_bnd keeps_thn keeps_peek keeps_if keeps_when keeps_lift keeps_mod_hd
      keeps_io_reset [OF keeps_write_wd33c93] keeps_io_reset [OF keeps_read_wd33c93]
      keeps_io_reset [OF keeps_wait_reset]) (simp_all add: reset_free_def io_free_def)

lemma reset_free_eqD:
  assumes "reset_free w' = reset_free w"
  shows "(hdata w')\<lparr>chip := 0, microcode := 0, fast := 0\<rparr> = (hdata w)\<lparr>chip := 0, microcode := 0, fast := 0\<rparr>"
    "cmds w' = cmds w" "devs w' = devs w" "filter is_done (events w') = filter is_done (events w)"
    "host_lock w' = host_lock w"
  using arg_cong [OF assms, of hdata] arg_cong [OF assms, of cmds] arg_cong [OF assms, of devs]
    arg_cong [OF assms, of "\<lambda>w. filter is_done (events w)"] arg_cong [OF assms, of host_lock]
  by (simp_all add: reset_free_def io_free_def)

lemma reset_free_hd:
  assumes "reset_free w' = reset_free w"
  shows "input_Q (hdata w') = input_Q (hdata w)" "disconnected_Q (hdata w') = disconnected_Q (hdata w)"
    "selecting (hdata w') = selecting (hdata w)" "connected (hdata w') = connected (hdata w)"
    "busy (hdata w') = busy (hdata w)" "state (hdata w') = state (hdata w)" "dma (hdata w') = dma (hdata w)"
    "incoming_ptr (hdata w') = incoming_ptr (hdata w)" "outgoing_len (hdata w') = outgoing_len (hdata w)"
    "sync_stat (hdata w') = sync_stat (hdata w)" "sync_xfer (hdata w') = sync_xfer (hdata w)"
    "sx_table (hdata w') = sx_table (hdata w)" "lock (hdata w') = lock (hdata w)"
  using arg_cong [OF reset_free_eqD(1) [OF assms], of input_Q]
    arg_cong [OF reset_free_eqD(1) [OF assms], of disconnected_Q]
    arg_cong [OF reset_free_eqD(1) [OF assms], of selecting]
    arg_cong [OF reset_free_eqD(1) [OF assms], of connected]
    arg_cong [OF reset_free_eqD(1) [OF assms], of busy]
    arg_cong [OF reset_free_eqD(1) [OF assms], of state]
    arg_cong [OF reset_free_eqD(1) [OF assms], of dma]
    arg_cong [OF reset_free_eqD(1) [OF assms], of incoming_ptr]
    arg_cong [OF reset_free_eqD(1) [OF assms], of outgoing_len]
    arg_cong [OF reset_free_eqD(1) [OF assms], of sync_stat]
    arg_cong [OF reset_free_eqD(1) [OF assms], of sync_xfer]
    arg_cong [OF reset_free_eqD(1) [OF assms], of sx_table]
    arg_cong [OF reset_free_eqD(1) [OF assms], of lock]
  by simp_all

lemma dma_free_hd:
  assumes "dma_free w' = dma_free w"
  shows "busy (hdata w') = busy (hdata w)" "sync_xfer (hdata w') = sync_xfer (hdata w)"
    "sync_stat (hdata w') = sync_stat (hdata w)" "cmds w' = cmds w" "devs w' = devs w"
    "filter is_done (events w') = filter is_done (events w)" "host_lock w' = host_lock w"
proof -
  have 1: "(hdata w')\<lparr>dma_dir := 0, dma_bounce_buffer := 0, dma_bounce_len := 0\<rparr> =
      (hdata w)\<lparr>dma_dir := 0, dma_bounce_buffer := 0, dma_bounce_len := 0\<rparr>"
    using arg_cong [OF assms, of hdata] by (simp add: dma_free_def)
  show "busy (hdata w') = busy (hdata w)" "sync_xfer (hdata w') = sync_xfer (hdata w)"
    "sync_stat (hdata w') = sync_stat (hdata w)"
    using arg_cong [OF 1, of busy] arg_cong [OF 1, of sync_xfer] arg_cong [OF 1, of sync_stat] by simp_all
  show "cmds w' = cmds w" "devs w' = devs w"
    "filter is_done (events w') = filter is_done (events w)" "host_lock w' = host_lock w"
    using arg_cong [OF assms, of cmds] arg_cong [OF assms, of devs] arg_cong [OF assms, of host_lock]
      arg_cong [OF assms, of "\<lambda>w. filter is_done (events w)"] by (simp_all add: dma_free_def io_free_def)
qed

context dma_host begin

lemma host_reset_run:
  assumes wf: "wf_host (hdata w)" and d: "filter is_done (events w) = map Scsi_done d"
    and m: "wd33c93_host_reset e c w = Inr (r, w')"
  shows "r = SUCCESS \<and> REP (addr_of w) (idle_view d) w' \<and> \<not> host_lock w' \<and>
    state (hdata w') = S_UNCONNECTED \<and> dma (hdata w') = D_DMA_OFF \<and>
    incoming_ptr (hdata w') = 0 \<and> outgoing_len (hdata w') = 0 \<and>
    (\<forall>t < 8. sync_stat (hdata w') ! t = SS_UNSET \<and>
       calc_sync_xfer (DEFAULT_SX_PER div 4) DEFAULT_SX_OFF 0 (sx_table (hdata w')) = Inr (sync_xfer (hdata w') ! t))"
proof -
  obtain w1 w2 w3 w4 w5 w6 where 1: "host_spin_lock w = Inr ((), w1)"
    and 2: "dma_stop e None 0 (w1\<lparr>events := events w1 @ [Disable_irq]\<rparr>) = Inr ((), w2)"
    and 3: "seqs (map reset_target [0..<8]) w2 = Inr ((), w3)" and 4: "clear_host w3 = Inr ((), w4)"
    and 5: "reset_wd33c93 w4 = Inr ((), w5)"
    and 6: "host_spin_unlock (w5\<lparr>cmds := (cmds w5)(c := (cmds w5 c)\<lparr>result := push_bit 16 (DID_RESET e)\<rparr>),
       events := events w5 @ [Enable_irq]\<rparr>) = Inr ((), w6)"
    and r: "r = SUCCESS" "w' = w6"
    using m unfolding wd33c93_host_reset_def seqs.simps
    by (auto simp: emit_run mod_cmd_run ret_run elim!: thn_InrE)
  have w1: "w1 = w\<lparr>host_lock := True\<rparr>"
    using 1 by (auto simp: host_spin_lock_def run_simps split: if_splits)
  note f2 = dma_free_hd [OF keepsD [OF stop_free 2], unfolded w1, simplified]
  obtain b xs ss where w3: "w3 = w2\<lparr>hdata := (hdata w2)\<lparr>busy := b, sync_xfer := xs, sync_stat := ss\<rparr>\<rparr>"
     "length b = 8" "length xs = 8" "length ss = 8"
     "\<forall>i < 8. b ! i = 0 \<and> ss ! i = SS_UNSET \<and>
       calc_sync_xfer (DEFAULT_SX_PER div 4) DEFAULT_SX_OFF 0 (sx_table (hdata w2)) = Inr (xs ! i)"
    using reset_targets_run [OF _ _ _ _ 3] f2 wf by (auto simp: wf_host_def)
  have w4: "w4 = w3\<lparr>hdata := (hdata w3)\<lparr>input_Q := None, selecting := None, connected := None,
     disconnected_Q := None, state := S_UNCONNECTED, dma := D_DMA_OFF, incoming_ptr := 0, outgoing_len := 0\<rparr>\<rparr>"
    using 4 by (simp add: clear_host_def run_simps)
  have k: "reset_free w5 = reset_free w4" using keepsD [OF keeps_reset 5] .
  note f5 = reset_free_hd [OF k, unfolded w4 w3(1), simplified] and
    g5 = reset_free_eqD(2-5) [OF k, unfolded w4 w3(1), simplified]
  have w6: "w6 = w5\<lparr>cmds := (cmds w5)(c := (cmds w5 c)\<lparr>result := push_bit 16 (DID_RESET e)\<rparr>),
       events := events w5 @ [Enable_irq], host_lock := False\<rparr>"
    using 6 by (auto simp: host_spin_unlock_def run_simps split: if_splits)
  have "addr_of w6 = addr_of w"
    by (rule ext) (simp add: addr_of_def w6 f2 g5)
  moreover have "REP (addr_of w6) (idle_view d) w6"
    by (rule REP_idle) (use w3 d in \<open>simp_all add: w6 f5 g5 f2\<close>)
  ultimately show ?thesis
    using w3 r by (simp add: w6 f5)
qed

end

end
