(* ===== verification/Sample.thy ===== *)
theory Sample
  imports Lifecycle
begin

text \<open>
  Concrete instances the witnesses are evaluated on: a kernel with the numbers Linux uses, a host
  structure as it is after initialisation at 12 MHz, and a world whose command \<open>c\<close> addresses lun 0
  of target \<open>c\<close>.
\<close>

definition sample_kernel :: kernel where
  "sample_kernel = \<lparr>
     set_host_byte = (\<lambda>r x. (r AND 0xff00ffff) OR push_bit 16 x),
     set_status_byte = (\<lambda>r x. (r AND 0xffffff00) OR x),
     scsi_msg_to_host_byte = (\<lambda>r m. r),
     DID_OK = 0, DID_NO_CONNECT = 1, DID_ABORT = 5, DID_ERROR = 7, DID_RESET = 8,
     virt_to_bus = (\<lambda>p. p),
     simple_strtoul = (\<lambda>s. (of_nat (foldl (\<lambda>n c. 10 * n + (of_char c - 48)) 0
        (takeWhile (\<lambda>c. CHR ''0'' \<le> c \<and> c \<le> CHR ''9'') s)), dropWhile (\<lambda>c. CHR ''0'' \<le> c \<and> c \<le> CHR ''9'') s)),
     simple_strtol = (\<lambda>s. (of_nat (foldl (\<lambda>n c. 10 * n + (of_char c - 48)) 0
        (takeWhile (\<lambda>c. CHR ''0'' \<le> c \<and> c \<le> CHR ''9'') s)), dropWhile (\<lambda>c. CHR ''0'' \<le> c \<and> c \<le> CHR ''9'') s))\<rparr>"

definition sample_table :: "sx_period list" where
  "sample_table = [
     \<lparr>period_ns = 1, reg_value = 0x20\<rparr>, \<lparr>period_ns = 252, reg_value = 0x20\<rparr>,
     \<lparr>period_ns = 376, reg_value = 0x30\<rparr>, \<lparr>period_ns = 500, reg_value = 0x40\<rparr>,
     \<lparr>period_ns = 624, reg_value = 0x50\<rparr>, \<lparr>period_ns = 752, reg_value = 0x60\<rparr>,
     \<lparr>period_ns = 876, reg_value = 0x70\<rparr>, \<lparr>period_ns = 1000, reg_value = 0\<rparr>,
     \<lparr>period_ns = 0, reg_value = 0\<rparr>]"

definition sample_host :: hostdata where
  "sample_host = \<lparr>
     lock = False, clock_freq = WD33C93_FS_12_15, chip = C_WD33C93A, microcode = 0, dma_dir = 0,
     dma_bounce_buffer = 0, dma_bounce_len = 0, busy = replicate 8 0, input_Q = None, selecting = None,
     connected = None, disconnected_Q = None, state = S_UNCONNECTED, dma = D_DMA_OFF, level2 = L2_BASIC,
     disconnect = DIS_ADAPTIVE, args = 0, incoming_msg = replicate 8 0, incoming_ptr = 0,
     outgoing_msg = replicate 8 0, outgoing_len = 0, default_sx_per = 376, sync_xfer = replicate 8 0x30,
     sync_stat = replicate 8 SS_UNSET, no_sync = 0xff, no_dma = 0, dma_mode = CTRL_DMA, fast = 0,
     sx_table = sample_table, proc = 0xbf, cmd_cnt = replicate 8 0, int_cnt = 0, pio_cnt = 0, dma_cnt = 0,
     disc_allowed_cnt = replicate 8 0, disc_done_cnt = replicate 8 0\<rparr>"

definition sample_cmd :: "cptr \<Rightarrow> scsi_cmnd" where
  "sample_cmd c = \<lparr>
     device = c, cmnd = [0x28, 0, 0, 0, 0, 0, 0, 0, 1, 0], cmd_len = 10, sc_data_direction = DMA_FROM_DEVICE,
     sdb_length = 512, sglist = [(0x1000, 512)], host_scribble = None, result = 0, SCp_ptr = 0,
     SCp_this_residual = 0, SCp_buffer = None, SCp_buffers_residual = 0, SCp_Status = 0, SCp_Message = 0,
     SCp_phase = 0\<rparr>"

definition sample_world :: world where
  "sample_world = \<lparr>
     hdata = sample_host, cmds = sample_cmd,
     devs = (\<lambda>d. \<lparr>dev_id = of_nat d, dev_lun = 0, dev_type = 0, dev_disconnect = False\<rparr>),
     mem = (\<lambda>_. 0), wd_in = [], istr_in = [], alloc_in = [], this_id = 7, host_lock = False, events = []\<rparr>"

definition succeeds :: "('a \<Rightarrow> bool) \<Rightarrow> 'a drv \<Rightarrow> world \<Rightarrow> bool" where
  "succeeds P m w = (case m w of Inl _ \<Rightarrow> False | Inr (x, _) \<Rightarrow> P x)"

lemma succeedsD: "succeeds P m w \<Longrightarrow> \<exists>x w'. m w = Inr (x, w') \<and> P x"
  by (auto simp: succeeds_def split: sum.splits)

lemma sample_queue: "succeeds (\<lambda>r. r = 0) (wd33c93_queuecommand_lck (a3000_env sample_kernel) 3) sample_world"
  by code_simp

text \<open>Command 3 waiting.\<close>

definition sample_waiting :: world where
  "sample_waiting = push_q input_Q input_Q_update 3 sample_world"

lemma sample_waiting_view:
  "REP (addr_of sample_world) ((idle_view [])\<lparr>v_in := [3]\<rparr>) sample_waiting"
  "wf_view (addr_of sample_world) ((idle_view [])\<lparr>v_in := [3]\<rparr>)"
  by (simp_all add: REP_def R_def idle_view_def outstanding_def active_def queue_of_def busy_set_zero
      sample_waiting_def sample_world_def sample_host_def push_q_def sample_cmd_def addr_of_def
      ok_addr_def wf_view_def fun_eq_iff)

text \<open>Command 3 just started at level 2, while target 4 reselects.\<close>

definition sample_racing :: world where
  "sample_racing = sample_world\<lparr>
     hdata := sample_host\<lparr>connected := Some 3, disconnected_Q := Some 4, state := S_RUNNING_LEVEL2,
                           busy := [0, 0, 0, 1, 1, 0, 0, 0]\<rparr>,
     wd_in := [ASR_INT, CSR_RESEL_AM, 0, 4, 0]\<rparr>"

lemma sample_racing_view:
  "REP (addr_of sample_world) ((idle_view [])\<lparr>v_con := Some 3, v_dis := [4]\<rparr>) sample_racing"
  "wf_view (addr_of sample_world) ((idle_view [])\<lparr>v_con := Some 3, v_dis := [4]\<rparr>)"
  by (simp_all add: REP_def R_def idle_view_def outstanding_def active_def queue_of_def
      sample_racing_def sample_world_def sample_host_def push_q_def sample_cmd_def addr_of_def
      ok_addr_def wf_view_def fun_eq_iff)
    (auto simp: busy_set_def nth_Cons' less_Suc_eq numeral_eq_Suc)

section \<open>Evaluations\<close>

lemma sample_execute: "succeeds (\<lambda>_. True) (wd33c93_execute (a3000_env sample_kernel)) sample_waiting"
  by code_simp

lemma sample_select: "succeeds (\<lambda>_. True) (thn (wd33c93_queuecommand_lck (a3000_env sample_kernel) 3)
   (thn (modify (\<lambda>w. w\<lparr>wd_in := [ASR_INT, CSR_SELECT, 0]\<rparr>)) (wd33c93_intr (a3000_env sample_kernel)))) sample_world"
  by code_simp

lemma sample_abort: "succeeds (\<lambda>r. r = SUCCESS) (wd33c93_abort (a3000_env sample_kernel) 3) sample_waiting"
  by code_simp

lemma sample_reset: "succeeds (\<lambda>r. r = SUCCESS) (wd33c93_host_reset (a3000_env sample_kernel) 3)
    (sample_world\<lparr>wd_in := [ASR_INT, 0, 0]\<rparr>)"
  by code_simp

lemma sample_race: "succeeds (\<lambda>_. True) (wd33c93_intr (a3000_env sample_kernel)) sample_racing"
  by code_simp
text \<open>Command 3 being selected with level 2 in use, while target 4 reselects.\<close>

definition sample_reselected :: world where
  "sample_reselected = sample_world\<lparr>
     hdata := sample_host\<lparr>selecting := Some 3, disconnected_Q := Some 4, state := S_SELECTING,
                           busy := [0, 0, 0, 1, 1, 0, 0, 0]\<rparr>,
     wd_in := [ASR_INT, CSR_RESEL_AM, 0, 4, 0]\<rparr>"

end
