(* ===== verification/Driver.thy ===== *)
theory Driver
  imports Sample
begin

text \<open>
  Whole runs of the driver. \<open>driver_run k A g w\<close>: after the commands \<open>g\<close> have been handed in, with
  interrupts, aborts and host resets in between, the world is \<open>w\<close>. Two restrictions are part of the
  relation. A reselection is served only while no command is connected and none is being selected
  with level 2 in use (\<open>calm_resel\<close>); what happens otherwise is the subject of two properties below.
  A host reset drops the commands that are outstanding, so they leave \<open>g\<close>. Between the driver's own
  operations the environment may change whatever the queues do not depend on: device registers,
  memory, the contents of commands.
\<close>

section \<open>Runs\<close>

definition completions :: "world \<Rightarrow> cptr \<Rightarrow> nat" where
  "completions w c = count_list (events w) (Scsi_done c)"

inductive driver_run :: "kernel \<Rightarrow> (cptr \<Rightarrow> nat \<times> nat) \<Rightarrow> cptr list \<Rightarrow> world \<Rightarrow> bool" for k A where
  run_start: "REP A (idle_view []) w \<Longrightarrow> driver_run k A [] w"
| run_environment: "driver_run k A g w \<Longrightarrow> qcore w' = qcore w \<Longrightarrow> driver_run k A g w'"
| run_queue: "driver_run k A g w \<Longrightarrow> ok_addr A c \<Longrightarrow> count_list g c = completions w c \<Longrightarrow>
    wd33c93_queuecommand_lck (a3000_env k) c w = Inr (r, w') \<Longrightarrow> driver_run k A (c # g) w'"
| run_interrupt: "driver_run k A g w \<Longrightarrow> calm_resel w \<Longrightarrow> a3000_intr k w = Inr (i, w') \<Longrightarrow> driver_run k A g w'"
| run_abort: "driver_run k A g w \<Longrightarrow> wd33c93_abort (a3000_env k) c w = Inr (a, w') \<Longrightarrow> driver_run k A g w'"
| run_reset: "driver_run k A g w \<Longrightarrow> wf_host (hdata w) \<Longrightarrow> wd33c93_host_reset (a3000_env k) c w = Inr (a, w') \<Longrightarrow>
    \<forall>c. count_list g' c = completions w c \<Longrightarrow> driver_run k A g' w'"

lemma count_done:
  "filter is_done ev = map Scsi_done d \<Longrightarrow> count_list ev (Scsi_done c) = count_list d c"
proof -
  have "count_list ev (Scsi_done c) = count_list (filter is_done ev) (Scsi_done c)"
    by (induction ev) auto
  moreover have "count_list (map Scsi_done d) (Scsi_done c) = count_list d c"
    by (induction d) auto
  ultimately show "filter is_done ev = map Scsi_done d \<Longrightarrow> ?thesis" by simp
qed

lemma completions_done: "REP A v w \<Longrightarrow> completions w c = count_list (v_done v) c"
  by (simp add: completions_def REP_def R_def count_done)

lemma account_count:
  assumes "wf_view A v" and "account v = mset g"
  shows "count_list g c = count_list (v_done v) c + (if c \<in> set (active v) then 1 else 0)"
proof -
  have "count_list (active v) c = (if c \<in> set (active v) then 1 else 0)"
    using assms(1) by (simp add: wf_view_def count_mset [symmetric] distinct_count_atmost_1)
  moreover have "count (account v) c = count_list (active v) c + count_list (v_done v) c"
    by (simp add: account_def count_mset)
  ultimately show ?thesis using arg_cong [OF assms(2), of "\<lambda>m. count m c"] by (simp add: count_mset)
qed

lemma a3000_intr_cases:
  assumes "a3000_intr k w = Inr (i, w')"
  obtains (unserviced) "i = IRQ_NONE" and "qcore w' = qcore w"
  | (serviced) w1 w2 where "i = IRQ_HANDLED" and "qcore w1 = qcore w" and "wd_in w1 = wd_in w"
      and "hdata w1 = hdata w" and "wd33c93_intr (a3000_env k) w1 = Inr ((), w2)" and "qcore w' = qcore w2"
proof -
  obtain st w0 where a: "rd_ISTR w = Inr (st, w0)"
    and b: "(if \<not> bit_on st ISTR_INT_P then ret IRQ_NONE
     else if bit_on st ISTR_INTS
     then thn host_spin_lock (thn (wd33c93_intr (a3000_env k)) (thn host_spin_unlock (ret IRQ_HANDLED)))
     else ret IRQ_NONE) w0 = Inr (i, w')"
    using assms unfolding a3000_intr_def by (rule bnd_InrE)
  have q0: "qcore w0 = qcore w" "wd_in w0 = wd_in w" "hdata w0 = hdata w"
    using a by (auto simp: rd_ISTR.simps qcore_def split: list.splits)
  show thesis
  proof (cases "bit_on st ISTR_INT_P \<and> bit_on st ISTR_INTS")
    case True
    with b obtain w1 w2 w3 where l: "host_spin_lock w0 = Inr ((), w1)"
      and m: "wd33c93_intr (a3000_env k) w1 = Inr ((), w2)" and u: "host_spin_unlock w2 = Inr ((), w3)"
      and i: "i = IRQ_HANDLED" "w' = w3"
      by (auto simp: ret_run elim!: thn_InrE)
    have "qcore w1 = qcore w0" "wd_in w1 = wd_in w0" "hdata w1 = hdata w0"
      using l by (auto simp: host_spin_lock_def run_simps qcore_def split: if_splits)
    moreover have "qcore w3 = qcore w2"
      using u by (auto simp: host_spin_unlock_def run_simps qcore_def split: if_splits)
    ultimately show thesis using serviced m i q0 by metis
  next
    case False
    then have "i = IRQ_NONE" "w' = w0" using b by (auto simp: ret_run split: if_splits)
    with unserviced q0 show thesis by simp
  qed
qed

lemma REP_qcore: "qcore w' = qcore w \<Longrightarrow> REP A v w \<Longrightarrow> REP A v w'"
  unfolding REP_def by (blast intro: R_frame)

lemma calm_resel_cong: "wd_in w' = wd_in w \<Longrightarrow> hdata w' = hdata w \<Longrightarrow> calm_resel w' = calm_resel w"
  by (simp add: calm_resel_def split: list.splits)

text \<open>The invariant of runs.\<close>

lemma run_invariant: "driver_run k A g w \<Longrightarrow> \<exists>v. wf_view A v \<and> REP A v w \<and> account v = mset g"
proof (induction rule: driver_run.induct)
  case (run_start w)
  then show ?case
    by (intro exI [of _ "idle_view []"]) (simp add: wf_idle, simp add: account_def active_def outstanding_def idle_view_def)
next
  case (run_environment g w w')
  then show ?case using REP_qcore by blast
next
  case (run_queue g w c r w')
  then obtain v where v: "wf_view A v" "REP A v w" "account v = mset g" by blast
  have fresh: "c \<notin> set (active v)"
    using account_count [OF v(1,3), of c] run_queue.hyps completions_done [OF v(2), of c] by (auto split: if_splits)
  from a3k.queue_refines [OF v(1,2) fresh] run_queue.hyps obtain v' where
    s: "exec_spec A (accept (front_of w c) c v) v'" and r: "REP A v' w'" by blast
  note st = exec_spec_steps [OF s]
  have "account v' = add_mset c (mset g)"
    using c_steps_account [OF st] v(3) by (simp add: account_accept)
  moreover have "wf_view A v'" by (rule c_steps_wf [OF st wf_accept [OF v(1) fresh]])
  ultimately show ?case using r by auto
next
  case (run_interrupt g w i w')
  then obtain v where v: "wf_view A v" "REP A v w" "account v = mset g" by blast
  from run_interrupt.hyps(3) show ?case
  proof (cases rule: a3000_intr_cases)
    case unserviced
    then show ?thesis using v REP_qcore by blast
  next
    case (serviced w1 w2)
    have "REP A v w1" using REP_qcore [OF serviced(2) v(2)] .
    moreover have "calm_resel w1"
      using run_interrupt.hyps(2) calm_resel_cong [OF serviced(3,4)] by simp
    ultimately obtain v' where s: "(c_step A)\<^sup>*\<^sup>* v v'" "wf_view A v'" "REP A v' w2"
      using a3k.intr_refines [OF v(1) _ _ serviced(5)] by blast
    moreover have "REP A v' w'" using REP_qcore [OF serviced(6) s(3)] .
    ultimately show ?thesis using c_steps_account [OF s(1)] v(3) by auto
  qed
next
  case (run_abort g w c a w')
  then obtain v where v: "wf_view A v" "REP A v w" "account v = mset g" by blast
  from a3k.abort_refines [OF v(1,2) run_abort.hyps(2)] obtain v' where
    "(c_step A)\<^sup>*\<^sup>* v v'" "wf_view A v'" "REP A v' w'" by blast
  then show ?case using v(3) c_steps_account by metis
next
  case (run_reset g w c a w' g')
  then obtain v where v: "REP A v w" by blast
  have "addr_of w = A" "filter is_done (events w) = map Scsi_done (v_done v)" using v by (simp_all add: REP_def R_def)
  with a3k.host_reset_run [OF run_reset.hyps(2) _ run_reset.hyps(3)] have "REP A (idle_view (v_done v)) w'" by auto
  moreover have "account (idle_view (v_done v)) = mset g'"
    using run_reset.hyps(4) completions_done [OF v]
    by (intro multiset_eqI) (simp add: account_def active_def outstanding_def idle_view_def count_mset)
  ultimately show ?case using wf_idle by blast
qed

section \<open>Witness runs\<close>

lemma sample_idle: "REP (addr_of sample_world) (idle_view []) sample_world"
  by (rule REP_idle) (simp_all add: sample_world_def sample_host_def)

lemma sample_ok: "c < 8 \<Longrightarrow> ok_addr (addr_of sample_world) c"
  by (simp add: ok_addr_of addr_ok_def sample_world_def sample_cmd_def unat_of_nat)

lemma sample_run: "\<exists>w. driver_run sample_kernel (addr_of sample_world) [3] w"
proof -
  obtain r w where "wd33c93_queuecommand_lck (a3000_env sample_kernel) 3 sample_world = Inr (r, w)"
    using succeedsD [OF sample_queue] by blast
  moreover have "completions sample_world 3 = 0"
    by (simp add: completions_def sample_world_def)
  ultimately show ?thesis
    using run_queue [OF run_start [OF sample_idle], of 3] sample_ok [of 3] by (metis count_list.simps(1) numeral_less_iff semiring_norm(78) rel_simps)
qed

text \<open>A command cannot be connected and waiting at once.\<close>

lemma connected_not_queued:
  assumes "wf_view A v" and "REP A v w" and "connected (hdata w) = Some c"
  shows "\<not> queue_of input_Q w (c # xs)"
proof
  assume q: "queue_of input_Q w (c # xs)"
  have "v_con v = Some c" "queue_of input_Q w (v_in v)" using assms(2,3) by (simp_all add: REP_def R_def)
  then have "c \<in> set (v_in v)" "c \<in> set (outstanding v)"
    using q by (cases "v_in v"; auto simp: queue_of_def outstanding_def)+
  then show False using assms(1) by (auto simp: wf_view_def active_def)
qed

section \<open>Properties\<close>

text \<open>
  C1. Exactly once. In every run of commands handed in, interrupts with whatever values the chip
  delivers, aborts and host resets, in which a reselection is served only while no command is
  connected and none is being selected with level 2 in use: each command that was handed in and not
  dropped by a host reset has been completed exactly once or is in exactly one place, waiting, being
  selected, connected, or disconnected. The linked lists, the two pointers and the busy map agree
  with that account: no two outstanding commands share a target and lun, and selection and
  connection exclude each other.
\<close>
theorem exactly_once:
  assumes "driver_run k A g w"
  shows "\<exists>v. wf_view A v \<and> REP A v w \<and>
    (\<forall>c. count_list g c = completions w c + (if c \<in> set (active v) then 1 else 0))"
  using run_invariant [OF assms] account_count completions_done by metis

theorem exactly_once_witness:
  "\<exists>w v. driver_run sample_kernel (addr_of sample_world) [3] w \<and> REP (addr_of sample_world) v w \<and>
     completions w 3 + (if 3 \<in> set (active v) then 1 else 0) = (1 :: nat)"
proof -
  obtain w where r: "driver_run sample_kernel (addr_of sample_world) [3] w" using sample_run by blast
  obtain v where v: "REP (addr_of sample_world) v w"
     "\<forall>c. count_list [3] c = completions w c + (if c \<in> set (active v) then 1 else 0)"
    using exactly_once [OF r] by blast
  from v(2) [rule_format, of 3] have "completions w 3 + (if 3 \<in> set (active v) then 1 else 0) = 1" by simp
  with r v(1) show ?thesis by blast
qed

text \<open>
  C2. Every completed run of \<^verbatim>\<open>wd33c93_intr\<close> that does not serve a reselection against a connected
  command, or against a command being selected with level 2 in use, is a sequence of legal moves of
  the abstract command machine: whatever status, phase and message bytes the chip delivers, the
  handler takes a represented, well-formed state to one, and changes the command lists only by
  selecting, connecting, completing, disconnecting, reconnecting or requeueing a command.
\<close>
theorem intr_simulation:
  assumes "wf_view A v" and "REP A v w" and "calm_resel w"
    and "wd33c93_intr (a3000_env k) w = Inr (x, w')"
  shows "\<exists>v'. (c_step A)\<^sup>*\<^sup>* v v' \<and> wf_view A v' \<and> REP A v' w' \<and> account v' = account v"
  using a3k.intr_refines [OF assms] c_steps_account by metis

theorem intr_simulation_witness:
  "\<exists>v v' w w'. REP (addr_of sample_world) v w \<and> account v = {#3#} \<and>
     wd33c93_intr (a3000_env sample_kernel) w = Inr ((), w') \<and>
     REP (addr_of sample_world) v' w' \<and> account v' = account v"
proof -
  let ?A = "addr_of sample_world" and ?f = "\<lambda>w. w\<lparr>wd_in := [ASR_INT, CSR_SELECT, 0]\<rparr>"
  obtain r w w' where q: "wd33c93_queuecommand_lck (a3000_env sample_kernel) 3 sample_world = Inr (r, w)"
    and i: "wd33c93_intr (a3000_env sample_kernel) (?f w) = Inr ((), w')"
    using succeedsD [OF sample_select] by (auto simp: modify_run elim!: thn_InrE)
  have fresh: "3 \<notin> set (active (idle_view []))" by (simp add: idle_view_def active_def outstanding_def)
  from a3k.queue_refines [OF wf_idle sample_idle fresh sample_ok q] obtain v where
    s: "exec_spec ?A (accept (front_of sample_world 3) 3 (idle_view [])) v" and r: "REP ?A v w" by auto
  have "account v = account (accept (front_of sample_world 3) 3 (idle_view []))"
    using c_steps_account [OF exec_spec_steps [OF s]] .
  then have a: "account v = {#3#}"
    by (simp add: account_accept) (simp add: account_def active_def outstanding_def idle_view_def)
  have "wf_view ?A v" by (rule c_steps_wf [OF exec_spec_steps [OF s] wf_accept [OF wf_idle fresh]])
  moreover have r': "REP ?A v (?f w)" by (rule REP_qcore [OF _ r]) (simp add: qcore_def)
  moreover have "calm_resel (?f w)" by (simp add: calm_resel_def)
  ultimately show ?thesis using intr_simulation [OF _ _ _ i, of ?A v] a r' i by blast
qed

text \<open>
  C3. \<^verbatim>\<open>wd33c93_execute\<close> is work-conserving and fair to the queue: it does nothing exactly when
  a command is being selected or is connected, or when every waiting command has another one
  outstanding for its target and lun; otherwise it starts the first waiting command that has not,
  leaving the order of the others alone.
\<close>
theorem execute_first_runnable:
  assumes "wf_view A v" and "REP A v w" and "wd33c93_execute (a3000_env k) w = Inr (x, w')"
  shows "\<exists>v'. REP A v' w' \<and>
    (if v_sel v \<noteq> None \<or> v_con v \<noteq> None \<or> (\<forall>c \<in> set (v_in v). A c \<in> A ` set (outstanding v)) then v' = v
     else \<exists>xs c ys. v_in v = xs @ c # ys \<and> (\<forall>x \<in> set xs. A x \<in> A ` set (outstanding v)) \<and>
            A c \<notin> A ` set (outstanding v) \<and>
            (v' = v\<lparr>v_in := xs @ ys, v_sel := Some c\<rparr> \<or> v' = v\<lparr>v_in := xs @ ys, v_con := Some c\<rparr>))"
proof -
  obtain v' where "exec_spec A v v'" "REP A v' w'"
    using hoareD [OF a3k.execute_refines [OF assms(1)] assms(3,2)] by blast
  then show ?thesis
    by (intro exI [of _ v']) (auto simp: exec_spec_def blocked_def starts_def split: if_splits)
qed

theorem execute_first_runnable_witness:
  "\<exists>w' v'. wd33c93_execute (a3000_env sample_kernel) sample_waiting = Inr ((), w') \<and>
     REP (addr_of sample_world) v' w' \<and> v_in v' = [] \<and> (v_sel v' = Some 3 \<or> v_con v' = Some 3)"
proof -
  obtain w' where m: "wd33c93_execute (a3000_env sample_kernel) sample_waiting = Inr ((), w')"
    using succeedsD [OF sample_execute] by auto
  from execute_first_runnable [OF sample_waiting_view(2,1) m] m show ?thesis
    by (auto simp: idle_view_def outstanding_def Cons_eq_append_conv)
qed

text \<open>
  C29. \<^verbatim>\<open>wd33c93_queuecommand_lck\<close> puts a new command at the end of the input queue, a REQUEST
  SENSE at its head, keeps the order of the rest, and then starts what \<^verbatim>\<open>wd33c93_execute\<close> may
  start; it returns 0.
\<close>
theorem queue_position:
  assumes "wf_view A v" and "REP A v w" and "c \<notin> set (active v)" and "ok_addr A c"
    and "wd33c93_queuecommand_lck (a3000_env k) c w = Inr (r, w')"
  shows "r = 0 \<and> (\<exists>v'. REP A v' w' \<and>
    exec_spec A (v\<lparr>v_in := if \<exists>rest. cmnd (cmds w c) = REQUEST_SENSE # rest then c # v_in v else v_in v @ [c]\<rparr>) v')"
proof -
  have "front_of w c \<longleftrightarrow> (\<exists>rest. cmnd (cmds w c) = REQUEST_SENSE # rest)"
    by (auto simp: front_of_def split: list.splits)
  then show ?thesis
    using a3k.queue_refines [OF assms] by (auto simp: accept_def)
qed

theorem queue_position_witness:
  "\<exists>w' v'. wd33c93_queuecommand_lck (a3000_env sample_kernel) 3 sample_world = Inr (0, w') \<and>
     REP (addr_of sample_world) v' w' \<and> exec_spec (addr_of sample_world) ((idle_view [])\<lparr>v_in := [3]\<rparr>) v'"
proof -
  obtain r w' where m: "wd33c93_queuecommand_lck (a3000_env sample_kernel) 3 sample_world = Inr (r, w')"
    using succeedsD [OF sample_queue] by blast
  have "3 \<notin> set (active (idle_view []))" by (simp add: idle_view_def active_def outstanding_def)
  from queue_position [OF wf_idle sample_idle this sample_ok m] m show ?thesis
    by (auto simp: idle_view_def cong: if_cong)
qed

text \<open>
  C8. \<^verbatim>\<open>wd33c93_abort\<close> succeeds exactly for a command that is waiting or connected, and then
  completes that command and no other; for any other command it fails and completes nothing. In
  both cases the driver stays in a represented, well-formed state reached by legal moves. For a
  connected command the comment in the code announces the opposite ("So, we fail"); the statement
  is about what the code does.
\<close>
theorem abort_outcome:
  assumes "wf_view A v" and "REP A v w" and "wd33c93_abort (a3000_env k) c w = Inr (r, w')"
  shows "\<exists>v'. (c_step A)\<^sup>*\<^sup>* v v' \<and> wf_view A v' \<and> REP A v' w' \<and>
    (if c \<in> set (v_in v) \<or> v_con v = Some c then r = SUCCESS \<and> v_done v' = v_done v @ [c]
     else r = FAILED \<and> v_done v' = v_done v)"
  using a3k.abort_refines [OF assms] by blast

theorem abort_outcome_witness:
  "\<exists>w' v'. wd33c93_abort (a3000_env sample_kernel) 3 sample_waiting = Inr (SUCCESS, w') \<and>
     REP (addr_of sample_world) v' w' \<and> v_done v' = [3]"
proof -
  obtain r w' where m: "wd33c93_abort (a3000_env sample_kernel) 3 sample_waiting = Inr (r, w')"
    using succeedsD [OF sample_abort] by blast
  from abort_outcome [OF sample_waiting_view(2,1) m] m show ?thesis
    by (auto simp: idle_view_def)
qed

text \<open>
  C9. \<^verbatim>\<open>wd33c93_host_reset\<close> leaves the driver idle: no command is waiting, selecting, connected
  or disconnected, no target is busy, every target will renegotiate, and the message and DMA state
  is cleared. Commands that were outstanding are dropped without a completion call.
\<close>
theorem host_reset_idle:
  assumes "wf_host (hdata w)" and "filter is_done (events w) = map Scsi_done d"
    and "wd33c93_host_reset (a3000_env k) c w = Inr (r, w')"
  shows "r = SUCCESS \<and> REP (addr_of w) (idle_view d) w' \<and> \<not> host_lock w' \<and>
    state (hdata w') = S_UNCONNECTED \<and> dma (hdata w') = D_DMA_OFF \<and>
    incoming_ptr (hdata w') = 0 \<and> outgoing_len (hdata w') = 0 \<and>
    (\<forall>t < 8. sync_stat (hdata w') ! t = SS_UNSET \<and>
       calc_sync_xfer (DEFAULT_SX_PER div 4) DEFAULT_SX_OFF 0 (sx_table (hdata w')) = Inr (sync_xfer (hdata w') ! t))"
  by (rule a3k.host_reset_run [OF assms])

theorem host_reset_idle_witness:
  "\<exists>w'. wd33c93_host_reset (a3000_env sample_kernel) 3 (sample_world\<lparr>wd_in := [ASR_INT, 0, 0]\<rparr>) = Inr (SUCCESS, w') \<and>
     REP (addr_of sample_world) (idle_view []) w' \<and> sync_stat (hdata w') ! 2 = SS_UNSET"
proof -
  let ?w = "sample_world\<lparr>wd_in := [ASR_INT, 0, 0]\<rparr>"
  obtain r w' where m: "wd33c93_host_reset (a3000_env sample_kernel) 3 ?w = Inr (r, w')"
    using succeedsD [OF sample_reset] by blast
  have "wf_host (hdata ?w)" "filter is_done (events ?w) = map Scsi_done []" "addr_of ?w = addr_of sample_world"
    by (simp_all add: wf_host_def sample_world_def sample_host_def sample_table_def addr_of_def fun_eq_iff)
  with host_reset_idle [OF this(1,2) m] m show ?thesis by auto
qed

text \<open>
  C18. Arbitration lost to a reselection after a select-and-transfer has been started (level 2 in use,
  advanced mode, no transfer running). If a disconnected command has the target and lun the chip
  reports, the connected command goes back to the head of the input queue and that command is
  connected in its place, by legal moves. If there is none, the handler gives up with the command
  both connected and at the head of the input queue, a state no well-formed account describes. It
  gets through only when the command phase shows that nothing has been transferred.
\<close>
theorem level2_race:
  assumes "wf_view A v" and "REP A v w" and "v_con v = Some c"
    and "dma (hdata w) = D_DMA_OFF" and "L2_NONE < level2 (hdata w)"
    and "wd_in w = asr # CSR_RESEL_AM # phs # src # lun # rest" and "bit_on asr ASR_INT" and "\<not> bit_on asr ASR_BSY"
    and "wd33c93_intr (a3000_env k) w = Inr (x, w')"
  shows "phs = 0 \<and>
    (if \<exists>d \<in> set (v_dis v). A d = resel_from src lun
     then \<exists>d xs ys v'. v_dis v = xs @ d # ys \<and> A d = resel_from src lun \<and>
       v' = v\<lparr>v_in := c # v_in v, v_dis := xs @ ys, v_con := Some d\<rparr> \<and>
       (c_step A)\<^sup>*\<^sup>* v v' \<and> wf_view A v' \<and> REP A v' w'
     else connected (hdata w') = Some c \<and> queue_of input_Q w' (c # v_in v) \<and>
       queue_of disconnected_Q w' (v_dis v) \<and> \<not> (\<exists>v'. wf_view A v' \<and> REP A v' w'))"
proof -
  from assms(2,9,4,6-8) obtain w1 where w1: "REP A v w1" "level2 (hdata w1) = level2 (hdata w)"
      "wd_in w1 = src # lun # rest" "intr_resel (v_con v) asr CSR_RESEL_AM phs w1 = Inr (x, w')"
    by (blast intro: a3k.intr_reselected)
  have "L2_NONE < level2 (hdata w1)" using w1(2) assms(5) by simp
  note r = resel_level2 [OF assms(1,3) w1(1) this w1(3,4)]
  moreover have "connected (hdata w') = Some c \<and> queue_of input_Q w' (c # v_in v) \<and>
      queue_of disconnected_Q w' (v_dis v) \<and> \<not> (\<exists>v'. wf_view A v' \<and> REP A v' w')"
    if "R A (v\<lparr>v_in := c # v_in v\<rparr>) (A ` set (outstanding v) - {A c}) w'"
    using that assms(3) connected_not_queued [of A _ w' c "v_in v"] by (auto simp: R_def)
  ultimately show ?thesis
    by (cases "\<exists>d \<in> set (v_dis v). A d = resel_from src lun") (simp_all only: if_True if_False simp_thms)
qed

theorem level2_race_witness:
  "\<exists>w'. wd33c93_intr (a3000_env sample_kernel) sample_racing = Inr ((), w') \<and>
     REP (addr_of sample_world) ((idle_view [])\<lparr>v_con := Some 4, v_in := [3]\<rparr>) w'"
proof -
  obtain w' where m: "wd33c93_intr (a3000_env sample_kernel) sample_racing = Inr ((), w')"
    using succeedsD [OF sample_race] by auto
  have "dma (hdata sample_racing) = D_DMA_OFF" "L2_NONE < level2 (hdata sample_racing)"
    "wd_in sample_racing = ASR_INT # CSR_RESEL_AM # 0 # 4 # 0 # []" "bit_on ASR_INT ASR_INT" "\<not> bit_on ASR_INT ASR_BSY"
    by (simp_all add: sample_racing_def sample_host_def bit_on_def)
  note r = level2_race [OF sample_racing_view(2,1) _ this m, of 3]
  moreover have "addr_of sample_world 4 = resel_from 4 0" by (simp add: addr_of_def sample_world_def sample_cmd_def)
  ultimately show ?thesis using m
    by (auto simp: idle_view_def Cons_eq_append_conv)
qed

section \<open>A selection that is not undone\<close>

text \<open>
  C19. A selection that is not undone. With level 2 in use, a target that has not negotiated yet is
  still selected step by step. When, in advanced mode, a target reselects during that selection, the
  handler looks at \<open>connected\<close> only: the disconnected command of the reported target and lun becomes
  connected while the other one stays in \<open>selecting\<close>, a state that no well-formed account of the
  commands describes. Without such a command the queues and pointers stay as they are.
\<close>
theorem selection_not_undone:
  assumes "wf_view A v" and "REP A v w" and "v_sel v = Some c" and "L2_NONE < level2 (hdata w)"
    and "wd_in w = asr # CSR_RESEL_AM # phs # src # lun # rest" and "bit_on asr ASR_INT" and "\<not> bit_on asr ASR_BSY"
    and "wd33c93_intr (a3000_env k) w = Inr (x, w')"
  shows "if \<exists>d \<in> set (v_dis v). A d = resel_from src lun
    then \<exists>d \<in> set (v_dis v). A d = resel_from src lun \<and> selecting (hdata w') = Some c \<and>
      connected (hdata w') = Some d \<and> \<not> (\<exists>v'. wf_view A v' \<and> REP A v' w')
    else REP A v w'"
proof -
  have con: "v_con v = None" using assms(1,3) by (simp add: wf_view_def)
  from assms(2,8,5-7) con obtain w1 where w1: "REP A v w1" "level2 (hdata w1) = level2 (hdata w)"
      "wd_in w1 = src # lun # rest" "intr_resel (v_con v) asr CSR_RESEL_AM phs w1 = Inr (x, w')"
    by (blast intro: a3k.intr_reselected)
  have "L2_NONE < level2 (hdata w1)" using w1(2) assms(4) by simp
  note r = resel_selecting [OF assms(1) w1(1) assms(3) this w1(3) w1(4) [unfolded con]]
  have "\<not> (\<exists>v'. wf_view A v' \<and> REP A v' w')"
    if "selecting (hdata w') = Some c" "connected (hdata w') = Some d" for d
    using that by (auto simp: wf_view_def REP_def R_def)
  with r show ?thesis
    by (cases "\<exists>d \<in> set (v_dis v). A d = resel_from src lun") (simp_all only: if_True if_False simp_thms, blast)
qed

lemma sample_reselected_runs: "succeeds (\<lambda>_. True) (wd33c93_intr (a3000_env sample_kernel)) sample_reselected"
  by code_simp

lemma sample_reselected_view:
  "REP (addr_of sample_world) ((idle_view [])\<lparr>v_sel := Some 3, v_dis := [4]\<rparr>) sample_reselected"
  "wf_view (addr_of sample_world) ((idle_view [])\<lparr>v_sel := Some 3, v_dis := [4]\<rparr>)"
  by (simp_all add: REP_def R_def idle_view_def outstanding_def active_def queue_of_def
      sample_reselected_def sample_world_def sample_host_def push_q_def sample_cmd_def addr_of_def
      ok_addr_def wf_view_def fun_eq_iff)
    (auto simp: busy_set_def nth_Cons' less_Suc_eq numeral_eq_Suc)

theorem selection_not_undone_witness:
  "\<exists>w'. wd33c93_intr (a3000_env sample_kernel) sample_reselected = Inr ((), w') \<and>
     selecting (hdata w') = Some 3 \<and> connected (hdata w') = Some 4"
proof -
  obtain w' where m: "wd33c93_intr (a3000_env sample_kernel) sample_reselected = Inr ((), w')"
    using succeedsD [OF sample_reselected_runs] by auto
  have "L2_NONE < level2 (hdata sample_reselected)"
    "wd_in sample_reselected = ASR_INT # CSR_RESEL_AM # 0 # 4 # 0 # []" "bit_on ASR_INT ASR_INT" "\<not> bit_on ASR_INT ASR_BSY"
    by (simp_all add: sample_reselected_def sample_host_def bit_on_def)
  note r = selection_not_undone [OF sample_reselected_view(2,1) _ this m, of 3]
  moreover have "addr_of sample_world 4 = resel_from 4 0" by (simp add: addr_of_def sample_world_def sample_cmd_def)
  ultimately show ?thesis using m by (auto simp: idle_view_def)
qed

end
