(* ===== verification/DataPath.thy ===== *)
theory DataPath
  imports Sample
begin

text \<open>
  The data path: the transfer counter, the polling loops, programmed transfers in both
  directions, and the walk through the scatter-gather list.
\<close>

section \<open>Three bytes of a word\<close>

lemma bit_low24: "n < 32 \<Longrightarrow> bit (0xffffff :: u32) n \<longleftrightarrow> n < 24"
proof -
  have e: "mask 24 = (0xffffff :: u32)" by (simp add: mask_eq_decr_exp)
  show "n < 32 \<Longrightarrow> bit (0xffffff :: u32) n \<longleftrightarrow> n < 24"
    unfolding e [symmetric] by (auto simp: bit_mask_iff)
qed

lemma three_bytes:
  "push_bit 16 (ucast (ucast (drop_bit 16 v) :: u8)) OR push_bit 8 (ucast (ucast (drop_bit 8 v) :: u8))
     OR ucast (ucast v :: u8) = v AND 0xffffff" for v :: u32
proof (rule bit_word_eqI)
  fix n assume "n < LENGTH(32)"
  then have n: "n < 32" by simp
  then show "bit (push_bit 16 (ucast (ucast (drop_bit 16 v) :: u8)) OR
      push_bit 8 (ucast (ucast (drop_bit 8 v) :: u8)) OR ucast (ucast v :: u8) :: u32) n = bit (v AND 0xffffff) n"
    unfolding bit_or_iff bit_and_iff bit_push_bit_iff bit_ucast_iff bit_drop_bit_eq bit_low24 [OF n]
    using n by (cases "bit v n"; cases "n < 16") auto
qed

lemma byte_of: "(ucast (drop_bit n v) :: u8) = of_nat (unat v div 2 ^ n)" for v :: u32
proof -
  have "unat (drop_bit n v) = unat v div 2 ^ n" by (simp only: unat_drop_bit_eq drop_bit_eq_div [of _ "unat v"])
  then have "unat (ucast (drop_bit n v) :: u8) = unat (of_nat (unat v div 2 ^ n) :: u8)"
    by (simp only: unat_u8_u32) (simp add: unat_of_nat)
  then show ?thesis by (rule word_unat_eq_iff [THEN iffD2])
qed

lemma or_bytes:
  "push_bit 16 (ucast hi) OR push_bit 8 (ucast mid) OR ucast lo =
    (of_nat (unat hi * 65536 + unat mid * 256 + unat lo) :: u32)" for hi mid lo :: u8
proof -
  have e: "push_bit 16 (ucast hi) OR push_bit 8 (ucast mid) = push_bit 16 (ucast hi) + (push_bit 8 (ucast mid) :: u32)"
    by (rule disjunctive_add_eq_or [symmetric]) (auto simp: bit_eq_iff bit_simps dest: bit_imp_le_length)
  have "(push_bit 16 (ucast hi) OR push_bit 8 (ucast mid)) OR ucast lo =
      (push_bit 16 (ucast hi) OR push_bit 8 (ucast mid)) + (ucast lo :: u32)"
    by (rule disjunctive_add_eq_or [symmetric]) (auto simp: bit_eq_iff bit_simps dest: bit_imp_le_length)
  also have "\<dots> = of_nat (unat hi * 65536 + unat mid * 256 + unat lo)"
    unfolding e by (simp add: push_bit_eq_mult)
  finally show ?thesis by (simp only: or.assoc)
qed

section \<open>Polling\<close>

text \<open>
  What a polling loop that reads data sees: a list of turns, each the auxiliary status and the byte
  the data register would give. The byte is fetched only when the status flags one. \<open>polled ps\<close>:
  exactly the last turn flags the interrupt.
\<close>

definition flagged :: "(u8 \<times> u8) list \<Rightarrow> u8 list" where
  "flagged ps = map snd (filter (\<lambda>(a, d). bit_on a ASR_DBR) ps)"

definition wire_in :: "(u8 \<times> u8) list \<Rightarrow> u8 list" where
  "wire_in ps = concat (map (\<lambda>(a, d). if bit_on a ASR_DBR then [a, d] else [a]) ps)"

fun polled :: "(u8 \<times> u8) list \<Rightarrow> bool" where
  "polled [] = False"
| "polled [(a, d)] = bit_on a ASR_INT"
| "polled ((a, d) # ps) = (\<not> bit_on a ASR_INT \<and> polled ps)"

lemma polled_Cons: "polled ((a, d) # ps) \<longleftrightarrow> (if bit_on a ASR_INT then ps = [] else polled ps)"
  by (cases ps) auto

lemma flagged_Cons: "flagged ((a, d) # ps) = (if bit_on a ASR_DBR then d # flagged ps else flagged ps)"
  by (simp add: flagged_def)

lemma wire_in_Cons: "wire_in ((a, d) # ps) = (if bit_on a ASR_DBR then a # d # wire_in ps else a # wire_in ps)"
  by (simp add: wire_in_def)

text \<open>The byte fetched last.\<close>

abbreviation (input) last_of :: "u8 \<Rightarrow> u8 list \<Rightarrow> u8" where
  "last_of x ds \<equiv> foldl (\<lambda>_ d. d) x ds"

lemma last_of_last: "last_of x ds = last (x # ds)"
  by (induction ds arbitrary: x) auto

lemma poll_1_byte_run:
  assumes "polled ps" and "wd_in w = wire_in ps @ rest"
  shows "\<exists>ev. poll_1_byte x w = Inr (last_of x (flagged ps), w\<lparr>wd_in := rest, events := events w @ ev\<rparr>)"
  using assms
proof (induction ps arbitrary: x w)
  case (Cons p ps)
  obtain a d where p: "p = (a, d)" by (cases p)
  let ?ev = "Rd_SASR a # (if bit_on a ASR_DBR then [Wr_SASR WD_DATA, Rd_SCMD d] else [])"
  let ?w = "w\<lparr>wd_in := wire_in ps @ rest, events := events w @ ?ev\<rparr>"
  let ?x = "if bit_on a ASR_DBR then d else x"
  have step: "poll_1_byte x w = (if bit_on a ASR_INT then Inr (?x, ?w) else poll_1_byte ?x ?w)"
    using Cons.prems by (subst poll_1_byte.simps) (auto simp: p wire_in_Cons run_simps)
  have last: "last_of x (flagged (p # ps)) = last_of ?x (flagged ps)"
    by (simp add: p flagged_Cons)
  show ?case
  proof (cases "bit_on a ASR_INT")
    case True
    then have "ps = []" using Cons.prems by (simp add: p polled_Cons)
    then show ?thesis unfolding step last using True by (auto simp: flagged_def wire_in_def)
  next
    case False
    then have "\<exists>ev. poll_1_byte ?x ?w =
        Inr (last_of ?x (flagged ps), ?w\<lparr>wd_in := rest, events := events ?w @ ev\<rparr>)"
      using Cons.prems by (intro Cons.IH) (auto simp: p polled_Cons)
    then show ?thesis unfolding step last using False by auto
  qed
qed simp

section \<open>Programmed transfers\<close>

definition mem_write :: "(u32 \<Rightarrow> u8) \<Rightarrow> u32 \<Rightarrow> u8 list \<Rightarrow> u32 \<Rightarrow> u8" where
  "mem_write m p ds = (\<lambda>a. if unat (a - p) < length ds then ds ! unat (a - p) else m a)"

lemma mem_write_Nil [simp]: "mem_write m p [] = m"
  by (simp add: mem_write_def)

lemma mem_write_Cons:
  assumes "Suc (length ds) \<le> 2 ^ 32"
  shows "mem_write (m(p := d)) (p + 1) ds = mem_write m p (d # ds)"
proof (rule ext)
  fix a
  show "mem_write (m(p := d)) (p + 1) ds a = mem_write m p (d # ds) a"
  proof (cases "a = p")
    case True
    have "p - (p + 1) = -1" by simp
    then have "\<not> unat (p - (p + 1)) < length ds"
      using assms by (simp add: unsigned_minus_1_eq_mask mask_eq_exp_minus_1)
    then show ?thesis by (simp add: mem_write_def True)
  next
    case False
    have "a - (p + 1) = a - p - 1" by (simp add: algebra_simps)
    moreover have "unat (a - p - 1) = unat (a - p) - 1"
      by (rule unat_minus_one) (use False in simp)
    ultimately have "unat (a - (p + 1)) = unat (a - p) - 1" by (simp only:)
    moreover have "0 < unat (a - p)" using False by (simp add: unat_gt_0)
    ultimately show ?thesis using False by (auto simp: mem_write_def nth_Cons')
  qed
qed

lemma pio_in_run:
  assumes "polled ps" and "wd_in w = wire_in ps @ rest" and "length (flagged ps) \<le> 2 ^ 32"
  shows "\<exists>ev. pio_loop True (Buf_mem p) i w =
    Inr ((), w\<lparr>wd_in := rest, events := events w @ ev, mem := mem_write (mem w) (p + of_nat i) (flagged ps)\<rparr>)"
  using assms
proof (induction ps arbitrary: i w)
  case (Cons q ps)
  obtain a d where q: "q = (a, d)" by (cases q)
  let ?ev = "Rd_SASR a # (if bit_on a ASR_DBR then [Wr_SASR WD_DATA, Rd_SCMD d] else [])"
  let ?m = "if bit_on a ASR_DBR then (mem w)(p + of_nat i := d) else mem w"
  let ?w = "w\<lparr>wd_in := wire_in ps @ rest, events := events w @ ?ev, mem := ?m\<rparr>"
  let ?j = "if bit_on a ASR_DBR then Suc i else i"
  have step: "pio_loop True (Buf_mem p) i w =
      (if bit_on a ASR_INT then Inr ((), ?w) else pio_loop True (Buf_mem p) ?j ?w)"
    using Cons.prems
    by (subst pio_loop.simps) (auto simp: q wire_in_Cons run_simps pio_move_def pio_store_def)
  have mem: "mem_write ?m (p + of_nat ?j) (flagged ps) = mem_write (mem w) (p + of_nat i) (flagged (q # ps))"
    using mem_write_Cons [of "flagged ps" "mem w" "p + of_nat i" d] Cons.prems(3)
    by (auto simp: q flagged_Cons ac_simps split: if_splits)
  show ?case
  proof (cases "bit_on a ASR_INT")
    case True
    then have "ps = []" using Cons.prems by (simp add: q polled_Cons)
    then show ?thesis using step True mem by (auto simp: flagged_def wire_in_def)
  next
    case False
    have "\<exists>ev. pio_loop True (Buf_mem p) ?j ?w = Inr ((), ?w\<lparr>wd_in := rest,
        events := events ?w @ ev, mem := mem_write (mem ?w) (p + of_nat ?j) (flagged ps)\<rparr>)"
      using Cons.prems False by (intro Cons.IH) (auto simp: q polled_Cons flagged_Cons split: if_splits)
    then show ?thesis using step False by (auto simp: mem)
  qed
qed simp

text \<open>
  Sending: only the status is read; the bytes come from the buffer, in order, one for each turn
  that flags the data register.
\<close>

fun out_events :: "(nat \<Rightarrow> u8) \<Rightarrow> nat \<Rightarrow> u8 list \<Rightarrow> event list" where
  "out_events f i [] = []"
| "out_events f i (a # as) =
     Rd_SASR a # (if bit_on a ASR_DBR then [Wr_SASR WD_DATA, Wr_SCMD (f i)] @ out_events f (Suc i) as
                  else out_events f i as)"

fun polled_out :: "u8 list \<Rightarrow> bool" where
  "polled_out [] = False"
| "polled_out (a # as) = (if bit_on a ASR_INT then as = [] else polled_out as)"

definition out_count :: "u8 list \<Rightarrow> nat" where
  "out_count as = length (filter (\<lambda>a. bit_on a ASR_DBR) as)"

lemma out_count_Cons: "out_count (a # as) = (if bit_on a ASR_DBR then Suc (out_count as) else out_count as)"
  by (simp add: out_count_def)

text \<open>\<open>f\<close> gives the bytes of the buffer: memory, or an array long enough.\<close>

definition buf_bytes :: "world \<Rightarrow> pio_buf \<Rightarrow> nat \<Rightarrow> u8" where
  "buf_bytes w buf i = (case buf of Buf_mem p \<Rightarrow> mem w (p + of_nat i) | Buf_cdb c \<Rightarrow> cmnd (cmds w c) ! i
     | Buf_out \<Rightarrow> outgoing_msg (hdata w) ! i)"

definition buf_room :: "world \<Rightarrow> pio_buf \<Rightarrow> nat \<Rightarrow> bool" where
  "buf_room w buf n \<longleftrightarrow> (case buf of Buf_mem p \<Rightarrow> True | Buf_cdb c \<Rightarrow> n \<le> length (cmnd (cmds w c))
     | Buf_out \<Rightarrow> n \<le> length (outgoing_msg (hdata w)))"

lemma pio_load_bytes: "buf_room w buf n \<Longrightarrow> i < n \<Longrightarrow> pio_load buf i w = Inr (buf_bytes w buf i, w)"
  by (cases buf) (auto simp: buf_room_def buf_bytes_def pio_load_def run_simps)

lemma pio_out_run:
  assumes "polled_out as" and "wd_in w = as @ rest" and "buf_room w buf (i + out_count as)"
  shows "pio_loop False buf i w =
    Inr ((), w\<lparr>wd_in := rest, events := events w @ out_events (buf_bytes w buf) i as\<rparr>)"
  using assms
proof (induction as arbitrary: i w)
  case (Cons a as)
  let ?j = "if bit_on a ASR_DBR then Suc i else i"
  let ?ev = "Rd_SASR a # (if bit_on a ASR_DBR then [Wr_SASR WD_DATA, Wr_SCMD (buf_bytes w buf i)] else [])"
  let ?w = "w\<lparr>wd_in := as @ rest, events := events w @ ?ev\<rparr>"
  have same: "buf_bytes ?w buf = buf_bytes w buf" "buf_room ?w buf = buf_room w buf"
    "\<And>x y. buf_bytes (w\<lparr>wd_in := x, events := y\<rparr>) buf = buf_bytes w buf"
    "\<And>x y. buf_room (w\<lparr>wd_in := x, events := y\<rparr>) buf = buf_room w buf"
    by (cases buf; auto simp: buf_bytes_def buf_room_def fun_eq_iff)+
  have load: "pio_load buf i (w\<lparr>wd_in := x, events := y\<rparr>) = Inr (buf_bytes w buf i, w\<lparr>wd_in := x, events := y\<rparr>)"
    if "bit_on a ASR_DBR" for x y
    using pio_load_bytes [of "w\<lparr>wd_in := x, events := y\<rparr>" buf "i + out_count (a # as)" i] Cons.prems(3) that
    by (simp add: same out_count_Cons)
  have step: "pio_loop False buf i w = (if bit_on a ASR_INT then Inr ((), ?w) else pio_loop False buf ?j ?w)"
    using Cons.prems load by (subst pio_loop.simps) (auto simp: run_simps pio_move_def)
  show ?case
  proof (cases "bit_on a ASR_INT")
    case True
    then show ?thesis unfolding step using Cons.prems by auto
  next
    case False
    then have "pio_loop False buf ?j ?w =
        Inr ((), ?w\<lparr>wd_in := rest, events := events ?w @ out_events (buf_bytes ?w buf) ?j as\<rparr>)"
      using Cons.prems by (intro Cons.IH) (auto simp: same out_count_Cons split: if_splits)
    then show ?thesis unfolding step using False by (auto simp: same)
  qed
qed simp

section \<open>The scatter-gather list\<close>

text \<open>
  A command in progress: the current entry is in the list, \<open>buffers_residual\<close> counts the entries
  after it, and pointer and residual together mark the end of the current entry. A command without
  data has no entry.
\<close>

definition sg_ok :: "scsi_cmnd \<Rightarrow> bool" where
  "sg_ok k \<longleftrightarrow> (case SCp_buffer k of
       Some i \<Rightarrow> i < length (sglist k) \<and> length (sglist k) \<le> 2 ^ 31 \<and>
                 unat (SCp_buffers_residual k) = length (sglist k) - Suc i \<and>
                 SCp_ptr k + SCp_this_residual k = fst (sglist k ! i) + snd (sglist k ! i)
     | None \<Rightarrow> SCp_buffers_residual k = 0 \<and> SCp_this_residual k = 0)"

lemma init_SCp_sg:
  assumes "init_SCp c w = Inr (x, w')" and "length (sglist (cmds w c)) \<le> 2 ^ 31"
  shows "sg_ok (cmds w' c)"
proof -
  have "unat (of_nat (length rest) :: u32) = length rest" if "length rest < 2 ^ 31" for rest :: "(u32 \<times> u32) list"
    using that by (simp add: unat_of_nat)
  then show ?thesis
    using assms by (auto simp: init_SCp_def run_simps sg_ok_def split: if_splits list.splits)
qed

lemma next_sg_ok:
  assumes "sg_ok (cmds w c)" and "SCp_buffers_residual (cmds w c) \<noteq> 0"
  shows "\<exists>w'. next_sg c w = Inr ((), w') \<and> sg_ok (cmds w' c)"
proof -
  let ?k = "cmds w c"
  obtain i where i: "SCp_buffer ?k = Some i"
    using assms by (auto simp: sg_ok_def split: option.splits)
  then have b: "i < length (sglist ?k)" "length (sglist ?k) \<le> 2 ^ 31"
      "unat (SCp_buffers_residual ?k) = length (sglist ?k) - Suc i"
    using assms(1) by (auto simp: sg_ok_def)
  then have "Suc i < length (sglist ?k)"
    using assms(2) by (simp add: unat_gt_0 [symmetric])
  moreover have "unat (SCp_buffers_residual ?k - 1) = unat (SCp_buffers_residual ?k) - 1"
    using assms(2) by (rule unat_minus_one)
  ultimately show ?thesis
    using i b by (auto simp: next_sg_def run_simps sg_ok_def)
qed

lemma update_residual_ok:
  assumes "sg_ok (cmds w c)" and "SCp_buffer (cmds w c) \<noteq> None" and "update_residual c w = Inr (x, w')"
  shows "sg_ok (cmds w' c)"
proof -
  obtain n w1 where 1: "read_wd33c93_count w = Inr (n, w1)"
    and 2: "mod_cmd c (\<lambda>k. k\<lparr>SCp_this_residual := n, SCp_ptr := SCp_ptr k + (SCp_this_residual k - n)\<rparr>) w1 = Inr (x, w')"
    using assms(3) unfolding update_residual_def by (rule bnd_InrE)
  have "cmds w1 = cmds w" using io_free_eqD(2) [OF keepsD [OF keeps_read_count 1]] .
  then show ?thesis using assms(1,2) 2 by (auto simp: sg_ok_def mod_cmd_run split: option.splits)
qed

text \<open>The commands but for their descriptor blocks, which no transfer changes.\<close>

definition body :: "world \<Rightarrow> cptr \<Rightarrow> scsi_cmnd" where
  "body w = (\<lambda>c. (cmds w c)\<lparr>cmnd := []\<rparr>)"

lemma sg_ok_body: "body w' = body w \<Longrightarrow> sg_ok (cmds w' c) = sg_ok (cmds w c)"
  "body w' = body w \<Longrightarrow> SCp_buffer (cmds w' c) = SCp_buffer (cmds w c)"
proof -
  have 1: "sg_ok (k\<lparr>cmnd := []\<rparr>) = sg_ok k" for k by (simp add: sg_ok_def split: option.split)
  assume "body w' = body w"
  then have e: "(cmds w' c)\<lparr>cmnd := []\<rparr> = (cmds w c)\<lparr>cmnd := []\<rparr>"
    unfolding body_def by (rule fun_cong)
  show "sg_ok (cmds w' c) = sg_ok (cmds w c)" using arg_cong [OF e, of sg_ok] by (simp add: 1)
  show "SCp_buffer (cmds w' c) = SCp_buffer (cmds w c)" using arg_cong [OF e, of SCp_buffer] by simp
qed

named_theorems ck "a program leaves the bodies of the commands alone"

lemmas [ck] = keeps_ret keeps_throw keeps_bnd keeps_thn keeps_peek keeps_if keeps_when
  keeps_arr_get keeps_arr_ok keeps_lift keeps_seqs_Nil keeps_seqs_Cons

lemma keeps_io_body: "keeps io_free m \<Longrightarrow> keeps body m"
  unfolding keeps_def body_def using io_free_eqD(2) by metis

lemmas [ck] = keeps_io_body [OF keeps_write_wd33c93] keeps_io_body [OF keeps_write_cmd]
  keeps_io_body [OF keeps_write_count] keeps_io_body [OF keeps_read_wd33c93]

lemma keeps_hd_body [ck]: "keeps body (mod_hd f)"
  by (rule keeps_mod_hd) (simp add: body_def)

lemma keeps_setup_body [ck]: "keeps body (a3000_dma_setup k c d)"
  using a3000_setup_free [of k c d] unfolding keeps_def body_def using dma_free_hd(4) by metis

lemma keeps_pio_move_body [ck]: "keeps body (pio_move d b i)"
proof -
  have "keeps body (pio_load b i)" "keeps body (pio_store b i v)" for v
    by (cases b; auto simp: keeps_def pio_load_def pio_store_def run_simps body_def fun_eq_iff split: if_splits)+
  then show ?thesis unfolding pio_move_def by (intro ck)
qed

lemma keeps_pio_loop_body [ck]: "keeps body (pio_loop d b i)"
proof (rule keepsI)
  fix w v w'
  show "pio_loop d b i w = Inr (v, w') \<Longrightarrow> body w' = body w"
  proof (induction d b i w arbitrary: v w' rule: pio_loop.induct)
    case (1 d b i w)
    show ?case
      using "1.prems" "1.IH"
      by (subst (asm) pio_loop.simps)
        (auto split: sum.splits if_splits prod.splits
          dest!: keepsD [OF keeps_io_body [OF io_keeps(5)]] keepsD [OF keeps_pio_move_body])
  qed
qed

lemma keeps_transfer_pio_body [ck]: "keeps body (transfer_pio b n d)"
  unfolding transfer_pio_def by (intro ck)

lemma keeps_dma_bytes_body [ck]: "keeps body (dma_bytes c)"
  unfolding dma_bytes_def by (intro ck)

lemma pio_bytes_sg:
  assumes ok: "sg_ok (cmds w c)" and some: "SCp_buffer (cmds w c) \<noteq> None" and m: "pio_bytes c d w = Inr (x, w')"
  shows "sg_ok (cmds w' c)"
proof -
  obtain w1 w2 where 1: "mod_hd (\<lambda>h. h\<lparr>pio_cnt := pio_cnt h + 1\<rparr>) w = Inr ((), w1)"
    and 2: "transfer_pio (Buf_mem (SCp_ptr (cmds w c))) (SCp_this_residual (cmds w c)) d w1 = Inr ((), w2)"
    and 3: "update_residual c w2 = Inr ((), w')"
    using m unfolding pio_bytes_def peek_run seqs.simps by (auto simp: ret_run elim!: thn_InrE)
  have "body w2 = body w"
    using keepsD [OF keeps_hd_body 1] keepsD [OF keeps_transfer_pio_body 2] by simp
  from sg_ok_body [OF this, of c] show ?thesis using update_residual_ok [OF _ _ 3] ok some by simp
qed

lemma transfer_bytes_sg:
  assumes ok: "sg_ok (cmds w c)" and m: "transfer_bytes (a3000_env k) c d w = Inr (x, w')"
  shows "sg_ok (cmds w' c)"
proof -
  let ?adv = "SCp_this_residual (cmds w c) = 0 \<and> SCp_buffers_residual (cmds w c) \<noteq> 0"
  obtain w1 where 1: "when_do ?adv (next_sg c) w = Inr ((), w1)"
    and 2: "(if SCp_this_residual (cmds w1 c) = 0 then ret ()
       else bnd (arr_get (sync_xfer (hdata w1)) (id_of w1 c)) (\<lambda>s.
         thn (write_wd33c93 WD_SYNCHRONOUS_TRANSFER s)
        (bnd (if no_dma (hdata w1) \<noteq> 0 then ret 1 else dma_setup (a3000_env k) c d) (\<lambda>use_pio.
           if use_pio \<noteq> 0 then pio_bytes c d else dma_bytes c)))) w1 = Inr (x, w')"
    using m unfolding transfer_bytes_def by (auto simp: peek_run elim!: thn_InrE)
  have ok1: "sg_ok (cmds w1 c)"
    using 1 ok next_sg_ok [OF ok] by (auto simp: when_do_run split: if_splits)
  show ?thesis
  proof (cases "SCp_this_residual (cmds w1 c) = 0")
    case True
    then show ?thesis using 2 ok1 by (simp add: ret_run)
  next
    case False
    then have some: "SCp_buffer (cmds w1 c) \<noteq> None"
      using ok1 by (auto simp: sg_ok_def split: option.splits)
    from 2 False obtain s w2 u w3 where s: "arr_get (sync_xfer (hdata w1)) (id_of w1 c) w1 = Inr (s, w1)"
      and 3: "write_wd33c93 WD_SYNCHRONOUS_TRANSFER s w1 = Inr ((), w2)"
      and 4: "(if no_dma (hdata w1) \<noteq> 0 then ret 1 else dma_setup (a3000_env k) c d) w2 = Inr (u, w3)"
      and 5: "(if u \<noteq> 0 then pio_bytes c d else dma_bytes c) w3 = Inr (x, w')"
      by (auto simp: arr_get_run elim!: bnd_InrE thn_InrE split: if_splits)
    have "keeps body (if no_dma (hdata w1) \<noteq> 0 then ret 1 else dma_setup (a3000_env k) c d)"
      unfolding a3000_env_sel by (intro ck)
    from keepsD [OF this 4] keepsD [OF keeps_io_body [OF keeps_write_wd33c93] 3]
    have "body w3 = body w1" by simp
    note b = sg_ok_body [OF this, of c]
    show ?thesis
    proof (cases "u = 0")
      case True
      then show ?thesis using 5 b sg_ok_body(1) [OF keepsD [OF keeps_dma_bytes_body], of c w3 x w' c] ok1 by simp
    next
      case False
      then show ?thesis using 5 b pio_bytes_sg [of w3 c d x w'] ok1 some by simp
    qed
  qed
qed

section \<open>Properties\<close>

text \<open>
  C33. The transfer counter. \<^verbatim>\<open>write_wd33c93_count\<close> selects the most significant count register
  once and sends bits 16 to 23 of the value, then bits 8 to 15, then bits 0 to 7;
  \<^verbatim>\<open>read_wd33c93_count\<close> takes three bytes and gives the first the weight 65536, the second 256 and the
  last 1. Reading back what was written gives the low 24 bits of the value.
\<close>
theorem count_roundtrip:
  "write_wd33c93_count v w = Inr ((), w\<lparr>events := events w @ [Wr_SASR WD_TRANSFER_COUNT_MSB,
       Wr_SCMD (of_nat (unat v div 65536)), Wr_SCMD (of_nat (unat v div 256)), Wr_SCMD (of_nat (unat v))]\<rparr>) \<and>
   read_wd33c93_count (w\<lparr>wd_in := hi # mid # lo # rest\<rparr>) =
     Inr (of_nat (unat hi * 65536 + unat mid * 256 + unat lo), w\<lparr>wd_in := rest,
       events := events w @ [Wr_SASR WD_TRANSFER_COUNT_MSB, Rd_SCMD hi, Rd_SCMD mid, Rd_SCMD lo]\<rparr>) \<and>
   (of_nat (unat (of_nat (unat v div 65536) :: u8) * 65536 + unat (of_nat (unat v div 256) :: u8) * 256 +
      unat (of_nat (unat v) :: u8)) :: u32) = v AND 0xffffff"
proof (intro conjI)
  have b: "ucast (drop_bit 16 v) = (of_nat (unat v div 65536) :: u8)" "ucast (drop_bit 8 v) = (of_nat (unat v div 256) :: u8)"
      "ucast v = (of_nat (unat v) :: u8)"
    using byte_of [of 16 v] byte_of [of 8 v] byte_of [of 0 v] by simp_all
  show "write_wd33c93_count v w = Inr ((), w\<lparr>events := events w @ [Wr_SASR WD_TRANSFER_COUNT_MSB,
       Wr_SCMD (of_nat (unat v div 65536)), Wr_SCMD (of_nat (unat v div 256)), Wr_SCMD (of_nat (unat v))]\<rparr>)"
    unfolding write_wd33c93_count_def b by (simp add: wr_SASR_def wr_SCMD_def run_simps)
  show "read_wd33c93_count (w\<lparr>wd_in := hi # mid # lo # rest\<rparr>) =
     Inr (of_nat (unat hi * 65536 + unat mid * 256 + unat lo), w\<lparr>wd_in := rest,
       events := events w @ [Wr_SASR WD_TRANSFER_COUNT_MSB, Rd_SCMD hi, Rd_SCMD mid, Rd_SCMD lo]\<rparr>)"
    unfolding read_wd33c93_count_def or_bytes by (simp add: wr_SASR_def run_simps rd_SCMD.simps)
  show "(of_nat (unat (of_nat (unat v div 65536) :: u8) * 65536 + unat (of_nat (unat v div 256) :: u8) * 256 +
      unat (of_nat (unat v) :: u8)) :: u32) = v AND 0xffffff"
    unfolding or_bytes [symmetric] b [symmetric] by (rule three_bytes)
qed

theorem count_roundtrip_witness:
  "write_wd33c93_count 0x123456 sample_world =
     Inr ((), sample_world\<lparr>events := [Wr_SASR WD_TRANSFER_COUNT_MSB, Wr_SCMD 0x12, Wr_SCMD 0x34, Wr_SCMD 0x56]\<rparr>)"
  using count_roundtrip [of "0x123456" sample_world] by (simp add: sample_world_def)

text \<open>
  C34. \<^verbatim>\<open>read_1_byte\<close> puts the chip in polled mode, issues a one-byte transfer command, polls until
  an interrupt is flagged, and returns the last byte the chip offered, or 0 when it offered none.
\<close>
theorem read_1_byte_last:
  assumes "polled ps" and "wd_in w = wire_in ps @ rest"
  shows "\<exists>ev. read_1_byte w = Inr (last (0 # flagged ps), w\<lparr>wd_in := rest,
     events := events w @ [Wr_SASR WD_CONTROL, Wr_SCMD (CTRL_IDI OR CTRL_EDI OR CTRL_POLLED),
                           Wr_SASR WD_COMMAND, Wr_SCMD (WD_CMD_TRANS_INFO OR 0x80)] @ ev\<rparr>)"
proof -
  let ?w = "w\<lparr>events := events w @ [Wr_SASR WD_CONTROL, Wr_SCMD (CTRL_IDI OR CTRL_EDI OR CTRL_POLLED),
                           Wr_SASR WD_COMMAND, Wr_SCMD (WD_CMD_TRANS_INFO OR 0x80)]\<rparr>"
  have "read_1_byte w = poll_1_byte 0 ?w" by (simp add: read_1_byte_def run_simps)
  then show ?thesis
    using poll_1_byte_run [of ps ?w rest 0] assms unfolding last_of_last by auto
qed

theorem read_1_byte_last_witness:
  "\<exists>w' :: world. read_1_byte (sample_world\<lparr>wd_in := [0, ASR_DBR, 0x42, ASR_INT]\<rparr>) = Inr (0x42, w')"
proof -
  let ?ps = "[(0, 0), (ASR_DBR, 0x42), (ASR_INT, 0)] :: (u8 \<times> u8) list"
  have "polled ?ps" "wd_in (sample_world\<lparr>wd_in := [0, ASR_DBR, 0x42, ASR_INT]\<rparr>) = wire_in ?ps @ []"
    "last (0 # flagged ?ps) = 0x42"
    by (simp_all add: bit_on_def wire_in_def flagged_def)
  with read_1_byte_last [OF this(1,2)] show ?thesis by metis
qed

text \<open>
  C23. A programmed input transfer stores the bytes the chip offers at consecutive addresses from
  the buffer on, in the order they were offered, and changes no other memory and nothing else of
  the driver's state; it ends at the first interrupt.
\<close>
theorem pio_input_copies:
  assumes "polled ps" and "wd_in w = wire_in ps @ rest" and "length (flagged ps) \<le> 2 ^ 32"
  shows "\<exists>ev m. transfer_pio (Buf_mem p) cnt DATA_IN_DIR w = Inr ((), w\<lparr>wd_in := rest, events := events w @ ev, mem := m\<rparr>) \<and>
    (\<forall>j < length (flagged ps). m (p + of_nat j) = flagged ps ! j) \<and>
    (\<forall>a. (\<forall>j < length (flagged ps). a \<noteq> p + of_nat j) \<longrightarrow> m a = mem w a)"
proof -
  let ?ev = "[Wr_SASR WD_CONTROL, Wr_SCMD (CTRL_IDI OR CTRL_EDI OR CTRL_POLLED), Wr_SASR WD_TRANSFER_COUNT_MSB,
    Wr_SCMD (ucast (drop_bit 16 cnt)), Wr_SCMD (ucast (drop_bit 8 cnt)), Wr_SCMD (ucast cnt),
    Wr_SASR WD_COMMAND, Wr_SCMD WD_CMD_TRANS_INFO]"
  let ?w = "w\<lparr>events := events w @ ?ev\<rparr>" and ?m = "mem_write (mem w) p (flagged ps)"
  have start: "transfer_pio (Buf_mem p) cnt DATA_IN_DIR w = pio_loop True (Buf_mem p) 0 ?w"
    by (simp add: transfer_pio_def write_wd33c93_count_def wr_SASR_def wr_SCMD_def run_simps split: sum.split prod.split)
  obtain ev where "pio_loop True (Buf_mem p) 0 ?w = Inr ((), ?w\<lparr>wd_in := rest, events := events ?w @ ev, mem := ?m\<rparr>)"
    using pio_in_run [of ps ?w rest p 0] assms by auto
  then have "transfer_pio (Buf_mem p) cnt DATA_IN_DIR w =
      Inr ((), w\<lparr>wd_in := rest, events := events w @ (?ev @ ev), mem := ?m\<rparr>)"
    unfolding start by simp
  moreover have "?m (p + of_nat j) = flagged ps ! j" if "j < length (flagged ps)" for j
  proof -
    have "unat (of_nat j :: u32) = j" using that assms(3) by (simp add: unat_of_nat)
    then show ?thesis using that by (simp add: mem_write_def)
  qed
  moreover have "?m a = mem w a" if "\<forall>j < length (flagged ps). a \<noteq> p + of_nat j" for a
  proof -
    have "a = p + of_nat (unat (a - p))" by simp
    then have "\<not> unat (a - p) < length (flagged ps)" using that by metis
    then show ?thesis by (simp add: mem_write_def)
  qed
  ultimately show ?thesis by blast
qed

theorem pio_input_copies_witness:
  "\<exists>ev m. transfer_pio (Buf_mem 0x1000) 2 DATA_IN_DIR (sample_world\<lparr>wd_in := [ASR_DBR, 7, 0, ASR_DBR, 9, ASR_INT]\<rparr>) =
     Inr ((), sample_world\<lparr>wd_in := [], events := ev, mem := m\<rparr>) \<and> m 0x1000 = 7 \<and> m 0x1001 = 9"
proof -
  let ?ps = "[(ASR_DBR, 7), (0, 0), (ASR_DBR, 9), (ASR_INT, 0)] :: (u8 \<times> u8) list"
  let ?w = "sample_world\<lparr>wd_in := [ASR_DBR, 7, 0, ASR_DBR, 9, ASR_INT]\<rparr>"
  have 1: "polled ?ps" "wd_in ?w = wire_in ?ps @ []" "length (flagged ?ps) \<le> 2 ^ 32" and f: "flagged ?ps = [7, 9]"
    by (simp_all add: bit_on_def wire_in_def flagged_def)
  obtain ev m where r: "transfer_pio (Buf_mem 0x1000) 2 DATA_IN_DIR ?w =
      Inr ((), ?w\<lparr>wd_in := [], events := events ?w @ ev, mem := m\<rparr>)"
    and m: "\<forall>j < length (flagged ?ps). m (0x1000 + of_nat j) = flagged ?ps ! j"
    using pio_input_copies [OF 1, of "0x1000" 2] by blast
  have "m 0x1000 = 7" "m 0x1001 = 9" using m [rule_format, of 0] m [rule_format, of 1] by (simp_all add: f)
  with r show ?thesis by auto
qed

text \<open>
  C24. A programmed output transfer sends the bytes of the buffer in order, one each time the chip
  flags its data register, whether the buffer is memory, the command descriptor block or the
  outgoing message; as long as the chip asks for no more bytes than the array has, it never reads
  outside it, and the driver's state is unchanged.
\<close>
theorem pio_output_sends:
  assumes "polled_out as" and "wd_in w = as @ rest" and "buf_room w buf (out_count as)"
  shows "\<exists>ev. transfer_pio buf cnt DATA_OUT_DIR w =
    Inr ((), w\<lparr>wd_in := rest, events := events w @ ev @ out_events (buf_bytes w buf) 0 as\<rparr>)"
proof -
  let ?ev = "[Wr_SASR WD_CONTROL, Wr_SCMD (CTRL_IDI OR CTRL_EDI OR CTRL_POLLED), Wr_SASR WD_TRANSFER_COUNT_MSB,
    Wr_SCMD (ucast (drop_bit 16 cnt)), Wr_SCMD (ucast (drop_bit 8 cnt)), Wr_SCMD (ucast cnt),
    Wr_SASR WD_COMMAND, Wr_SCMD WD_CMD_TRANS_INFO]"
  let ?w = "w\<lparr>events := events w @ ?ev\<rparr>"
  have start: "transfer_pio buf cnt DATA_OUT_DIR w = pio_loop False buf 0 ?w"
    by (simp add: transfer_pio_def write_wd33c93_count_def wr_SASR_def wr_SCMD_def run_simps split: sum.split prod.split)
  have "buf_bytes ?w buf = buf_bytes w buf" "buf_room ?w buf = buf_room w buf"
    by (cases buf; auto simp: buf_bytes_def buf_room_def fun_eq_iff)+
  then show ?thesis
    unfolding start using pio_out_run [of as ?w rest buf 0] assms by (intro exI [of _ ?ev]) simp
qed

theorem pio_output_sends_witness:
  "\<exists>ev. transfer_pio (Buf_cdb 3) 10 DATA_OUT_DIR (sample_world\<lparr>wd_in := [0, ASR_DBR, ASR_INT]\<rparr>) =
     Inr ((), sample_world\<lparr>wd_in := [],
       events := ev @ [Rd_SASR 0, Rd_SASR ASR_DBR, Wr_SASR WD_DATA, Wr_SCMD 0x28, Rd_SASR ASR_INT]\<rparr>)"
proof -
  let ?as = "[0, ASR_DBR, ASR_INT] :: u8 list" and ?w = "sample_world\<lparr>wd_in := [0, ASR_DBR, ASR_INT]\<rparr>"
  have "polled_out ?as" "wd_in ?w = ?as @ []" "buf_room ?w (Buf_cdb 3) (out_count ?as)"
    by (simp_all add: bit_on_def buf_room_def out_count_def sample_world_def sample_cmd_def)
  from pio_output_sends [OF this, of 10] show ?thesis
    by (auto simp: bit_on_def buf_bytes_def sample_world_def sample_cmd_def)
qed

text \<open>
  C15. The scatter-gather bookkeeping. \<^verbatim>\<open>transfer_bytes\<close> keeps the invariant of a command in
  progress: the current entry is one of the list, \<open>buffers_residual\<close> is the number of entries
  after it, and pointer plus residual is the end of the entry, whether it takes the next entry,
  transfers by program or starts the DMA.
\<close>
theorem scatter_gather_invariant:
  assumes "sg_ok (cmds w c)" and "transfer_bytes (a3000_env k) c dir w = Inr (x, w')"
  shows "sg_ok (cmds w' c)"
  by (rule transfer_bytes_sg [OF assms])

definition sample_data :: world where
  "sample_data = sample_world\<lparr>
     cmds := (\<lambda>c. (sample_cmd c)\<lparr>sglist := [(0x1000, 512), (0x3000, 256)], SCp_buffer := Some 0,
                                 SCp_buffers_residual := 1, SCp_ptr := 0x1200, SCp_this_residual := 0\<rparr>)\<rparr>"

lemma sample_transfer: "succeeds (\<lambda>_. True) (transfer_bytes (a3000_env sample_kernel) 3 DATA_IN_DIR) sample_data"
  by code_simp

theorem scatter_gather_invariant_witness:
  "\<exists>w'. transfer_bytes (a3000_env sample_kernel) 3 DATA_IN_DIR sample_data = Inr ((), w') \<and> sg_ok (cmds w' 3)"
proof -
  obtain w' where m: "transfer_bytes (a3000_env sample_kernel) 3 DATA_IN_DIR sample_data = Inr ((), w')"
    using succeedsD [OF sample_transfer] by auto
  have "sg_ok (cmds sample_data 3)" by (simp add: sample_data_def sg_ok_def)
  from scatter_gather_invariant [OF this m] m show ?thesis by blast
qed

text \<open>
  C35. Taking the next scatter-gather entry never runs off the list: while entries remain, the step
  succeeds and the invariant holds again.
\<close>
theorem next_entry_exists:
  assumes "sg_ok (cmds w c)" and "SCp_buffers_residual (cmds w c) \<noteq> 0"
  shows "\<exists>w'. next_sg c w = Inr ((), w') \<and> sg_ok (cmds w' c)"
  by (rule next_sg_ok [OF assms])

theorem next_entry_exists_witness: "\<exists>w'. next_sg 3 sample_data = Inr ((), w') \<and> sg_ok (cmds w' 3)"
  by (rule next_entry_exists) (simp_all add: sample_data_def sg_ok_def)

end
