(* ===== verification/DmaProps.thy ===== *)
theory DmaProps
  imports Sample
begin

text \<open>
  What the DMA operations of \<^verbatim>\<open>a3000.c\<close> achieve: when a transfer starts and with which address,
  what happens to the bounce buffer and its contents, and when stopping comes back.
\<close>

section \<open>Runs of the parts\<close>

lemma kmalloc_run: "alloc_in w = p # ps \<Longrightarrow>
  kmalloc n w = Inr (p, w\<lparr>alloc_in := ps, events := events w @ [Kmalloc n p]\<rparr>)"
  by (simp add: kmalloc.simps)

lemma wr_reg_run: "wr_reg r v w = Inr ((), w\<lparr>events := events w @ [Wr_reg r v]\<rparr>)"
  by (simp add: wr_reg_def run_simps)

definition copied :: "(u32 \<Rightarrow> u8) \<Rightarrow> u32 \<Rightarrow> u32 \<Rightarrow> u32 \<Rightarrow> u32 \<Rightarrow> u8" where
  "copied m d s n = (\<lambda>a. if a - d < n then m (s + (a - d)) else m a)"

lemma memcpy_run: "memcpy d s n w = Inr ((), w\<lparr>mem := copied (mem w) d s n\<rparr>)"
  by (simp add: memcpy_def run_simps copied_def)

definition start_events :: "u32 \<Rightarrow> u32 \<Rightarrow> u32 \<Rightarrow> event list" where
  "start_events dir_in addr n =
     [Wr_reg CNTR (ucast (CNTR_PDMD OR CNTR_INTEN OR (if dir_in = 0 then CNTR_DDIR else 0))),
      Wr_reg ACR addr,
      (if dir_in \<noteq> 0 then Cache_clear addr n else Cache_push addr n),
      Wr_reg ST_DMA 1]"

lemma start_dma_run:
  "start_dma c dir_in addr w = Inr ((), w\<lparr>hdata := (hdata w)\<lparr>dma_dir := dir_in\<rparr>,
     events := events w @ start_events dir_in addr (SCp_this_residual (cmds w c))\<rparr>)"
  by (simp add: start_dma_def start_events_def wr_reg_run run_simps)

definition bounce_len :: "u32 \<Rightarrow> u32" where
  "bounce_len n = (n + 511) AND NOT 0x1ff"

text \<open>The states after a successful set-up, straight from the command's memory and through \<open>p\<close>.\<close>

definition direct_started :: "kernel \<Rightarrow> cptr \<Rightarrow> u32 \<Rightarrow> world \<Rightarrow> world" where
  "direct_started k c d w = w\<lparr>hdata := (hdata w)\<lparr>dma_dir := d\<rparr>,
     events := events w @ start_events d (virt_to_bus k (SCp_ptr (cmds w c))) (SCp_this_residual (cmds w c))\<rparr>"

definition bounced :: "kernel \<Rightarrow> cptr \<Rightarrow> u32 \<Rightarrow> u32 \<Rightarrow> u32 list \<Rightarrow> world \<Rightarrow> world" where
  "bounced k c d p ps w = w\<lparr>
     hdata := (hdata w)\<lparr>dma_bounce_buffer := p, dma_bounce_len := bounce_len (SCp_this_residual (cmds w c)), dma_dir := d\<rparr>,
     alloc_in := ps,
     mem := (if d = 0 then copied (mem w) p (SCp_ptr (cmds w c)) (SCp_this_residual (cmds w c)) else mem w),
     events := events w @ Kmalloc (bounce_len (SCp_this_residual (cmds w c))) p #
       start_events d (virt_to_bus k p) (SCp_this_residual (cmds w c))\<rparr>"

lemma setup_direct:
  assumes "\<not> bit_on (virt_to_bus k (SCp_ptr (cmds w c))) A3000_XFER_MASK"
  shows "a3000_dma_setup k c d w = Inr (0, direct_started k c d w)"
  using assms by (simp add: a3000_dma_setup_def run_simps start_dma_run direct_started_def)

lemma setup_bounced:
  assumes "bit_on (virt_to_bus k (SCp_ptr (cmds w c))) A3000_XFER_MASK"
    and "alloc_in w = p # ps" and "p \<noteq> 0"
  shows "a3000_dma_setup k c d w = Inr (0, bounced k c d p ps w)"
  using assms
  by (simp add: a3000_dma_setup_def get_bounce_def Let_def run_simps start_dma_run kmalloc_run memcpy_run
      bounced_def bounce_len_def)

lemma setup_refused:
  assumes "bit_on (virt_to_bus k (SCp_ptr (cmds w c))) A3000_XFER_MASK" and "alloc_in w = 0 # ps"
  shows "a3000_dma_setup k c d w = Inr (1, w\<lparr>hdata := (hdata w)\<lparr>dma_bounce_buffer := 0, dma_bounce_len := 0\<rparr>,
     alloc_in := ps, events := events w @ [Kmalloc (bounce_len (SCp_this_residual (cmds w c))) 0]\<rparr>)"
  using assms by (simp add: a3000_dma_setup_def get_bounce_def Let_def run_simps kmalloc_run bounce_len_def)

section \<open>Waiting for the flush\<close>

abbreviation (input) flushed :: "u16 \<Rightarrow> bool" where
  "flushed v \<equiv> bit_on v ISTR_FE_FLG"

definition upto_flushed :: "u16 list \<Rightarrow> u16 list" where
  "upto_flushed vs = takeWhile (\<lambda>v. \<not> flushed v) vs @ take 1 (dropWhile (\<lambda>v. \<not> flushed v) vs)"

lemma wait_flush_run:
  "wait_flush w = (if \<exists>v \<in> set (istr_in w). flushed v
     then Inr ((), w\<lparr>istr_in := drop 1 (dropWhile (\<lambda>v. \<not> flushed v) (istr_in w)),
                     events := events w @ map Rd_ISTR (upto_flushed (istr_in w))\<rparr>)
     else Inl Waiting)"
proof (induction "istr_in w" arbitrary: w)
  case Nil
  then show ?case by (subst wait_flush.simps) (simp add: rd_ISTR.simps)
next
  case (Cons v vs)
  let ?w = "w\<lparr>istr_in := vs, events := events w @ [Rd_ISTR v]\<rparr>"
  have step: "wait_flush w = (if flushed v then Inr ((), ?w) else wait_flush ?w)"
    using Cons.hyps(2) [symmetric] by (subst wait_flush.simps) (simp add: rd_ISTR.simps)
  show ?case
    using Cons.hyps(1) [of ?w] Cons.hyps(2) [symmetric] unfolding step
    by (simp add: upto_flushed_def)
qed

text \<open>The registers \<^verbatim>\<open>dma_stop\<close> writes, and what it does with the bounce buffer.\<close>

definition stop_events :: "u32 \<Rightarrow> u16 list \<Rightarrow> event list" where
  "stop_events d is =
     Wr_reg CNTR (ucast (CNTR_PDMD OR (if d = 0 then CNTR_DDIR else 0))) #
     (if d \<noteq> 0 then Wr_reg FLUSH 1 # map Rd_ISTR (upto_flushed is) else []) @
     [Wr_reg CINT 1, Wr_reg SP_DMA 1, Wr_reg CNTR (ucast (CNTR_PDMD OR CNTR_INTEN))]"

definition copied_back :: "cptr option \<Rightarrow> world \<Rightarrow> u32 \<Rightarrow> u8" where
  "copied_back s w = (case s of
     Some c \<Rightarrow> (if dma_dir (hdata w) \<noteq> 0
       then copied (mem w) (SCp_ptr (cmds w c)) (dma_bounce_buffer (hdata w)) (SCp_this_residual (cmds w c))
       else mem w)
   | None \<Rightarrow> mem w)"

definition frees :: "u32 \<Rightarrow> world \<Rightarrow> bool" where
  "frees status w \<longleftrightarrow> status \<noteq> 0 \<and> dma_bounce_buffer (hdata w) \<noteq> 0"

definition stopped :: "cptr option \<Rightarrow> u32 \<Rightarrow> world \<Rightarrow> world" where
  "stopped s status w = w\<lparr>
     istr_in := (if dma_dir (hdata w) \<noteq> 0 then drop 1 (dropWhile (\<lambda>v. \<not> flushed v) (istr_in w)) else istr_in w),
     mem := (if frees status w then copied_back s w else mem w),
     hdata := (if frees status w then (hdata w)\<lparr>dma_bounce_buffer := 0, dma_bounce_len := 0\<rparr> else hdata w),
     events := events w @ stop_events (dma_dir (hdata w)) (istr_in w) @
       (if frees status w then [Kfree (dma_bounce_buffer (hdata w))] else [])\<rparr>"

lemma stop_run:
  "a3000_dma_stop s status w =
     (if dma_dir (hdata w) = 0 \<or> (\<exists>v \<in> set (istr_in w). flushed v)
      then Inr ((), stopped s status w) else Inl Waiting)"
  by (cases s) (auto simp: a3000_dma_stop_def run_simps wr_reg_run wait_flush_run memcpy_run put_bounce_def
      stopped_def stop_events_def copied_back_def frees_def)

section \<open>The size of the bounce buffer\<close>

lemma and_not_511: "x AND NOT 0x1ff = push_bit 9 (drop_bit 9 x)" for x :: u32
proof (rule bit_word_eqI)
  fix n assume n: "n < LENGTH(32)"
  have m: "mask 9 = (0x1ff :: u32)" by (simp add: mask_eq_decr_exp)
  show "bit (x AND NOT 0x1ff) n = bit (push_bit 9 (drop_bit 9 x)) n"
    using n unfolding m [symmetric] by (auto simp: bit_simps)
qed

lemma bounce_len_unat:
  assumes "unat n + 511 < 2 ^ 32"
  shows "unat (bounce_len n) = (unat n + 511) div 512 * 512"
proof -
  have e: "unat (n + 511) = unat n + 511"
    using assms by (simp add: unat_word_ariths)
  have "unat (bounce_len n) = take_bit 32 (push_bit 9 (drop_bit 9 (take_bit 32 (unat (n + 511)))))"
    unfolding bounce_len_def and_not_511 by (simp add: unsigned_push_bit_eq unsigned_drop_bit_eq)
  also have "\<dots> = (unat n + 511) div 512 * 512 mod 2 ^ 32"
    unfolding e using assms by (simp add: take_bit_eq_mod push_bit_eq_mult drop_bit_eq_div)
  also have "\<dots> = (unat n + 511) div 512 * 512"
    using assms by (intro mod_less) (use div_times_less_eq_dividend [of "unat n + 511" 512] in linarith)
  finally show ?thesis .
qed

section \<open>Properties\<close>

text \<open>
  C11. Set-up of a DMA transfer. Data at an aligned bus address is transferred in place. For data that
  is not aligned a bounce buffer of the rounded length is asked for: without one the set-up refuses,
  writes no register of the SDMAC and leaves memory and direction alone; with one the transfer uses
  the buffer's aligned bus address. In both cases that go on the direction is remembered and the
  SDMAC gets control word, address, cache maintenance and start, in this order. (The comment in the
  code names two further reasons for a bounce buffer; the code tests alignment only.)
\<close>
theorem dma_setup_outcome:
  assumes "alloc_in w = p # ps" and "p \<noteq> 0 \<Longrightarrow> \<not> bit_on (virt_to_bus k p) A3000_XFER_MASK"
  shows "\<exists>r w'. a3000_dma_setup k c dir w = Inr (r, w') \<and>
    (if \<not> bit_on (virt_to_bus k (SCp_ptr (cmds w c))) A3000_XFER_MASK
     then r = 0 \<and> dma_dir (hdata w') = dir \<and> mem w' = mem w \<and> alloc_in w' = alloc_in w \<and>
       events w' = events w @ start_events dir (virt_to_bus k (SCp_ptr (cmds w c))) (SCp_this_residual (cmds w c))
     else if p = 0
     then r = 1 \<and> dma_dir (hdata w') = dma_dir (hdata w) \<and> mem w' = mem w \<and>
       events w' = events w @ [Kmalloc (bounce_len (SCp_this_residual (cmds w c))) 0]
     else r = 0 \<and> dma_dir (hdata w') = dir \<and> dma_bounce_buffer (hdata w') = p \<and>
       \<not> bit_on (virt_to_bus k p) A3000_XFER_MASK \<and>
       events w' = events w @ Kmalloc (bounce_len (SCp_this_residual (cmds w c))) p #
         start_events dir (virt_to_bus k p) (SCp_this_residual (cmds w c)))"
proof (cases "bit_on (virt_to_bus k (SCp_ptr (cmds w c))) A3000_XFER_MASK")
  case False
  then show ?thesis using setup_direct [OF False, of dir] by (simp add: direct_started_def)
next
  case True
  show ?thesis
  proof (cases "p = 0")
    case zero: True
    with assms(1) have "alloc_in w = 0 # ps" by simp
    then show ?thesis using setup_refused [OF True, of ps dir] True zero by simp
  next
    case False
    then show ?thesis using setup_bounced [OF True assms(1) False, of dir] True assms(2) by (simp add: bounced_def)
  qed
qed

theorem dma_setup_outcome_witness:
  "\<exists>w'. a3000_dma_setup sample_kernel 3 0
     (sample_world\<lparr>cmds := (\<lambda>c. (sample_cmd c)\<lparr>SCp_ptr := 0x1002, SCp_this_residual := 4\<rparr>), alloc_in := [0x8000]\<rparr>) = Inr (0, w')
   \<and> dma_bounce_buffer (hdata w') = 0x8000 \<and> Wr_reg ACR 0x8000 \<in> set (events w')"
  using dma_setup_outcome [of "sample_world\<lparr>cmds := (\<lambda>c. (sample_cmd c)\<lparr>SCp_ptr := 0x1002, SCp_this_residual := 4\<rparr>),
      alloc_in := [0x8000]\<rparr>" "0x8000" "[]" sample_kernel 3 0]
  by (auto simp: sample_kernel_def bit_on_def start_events_def)

text \<open>
  C36. The bounce buffer has room: its length is a multiple of 512, at least the residual and less
  than 512 more, for every residual that does not wrap.
\<close>
theorem bounce_room:
  assumes "bit_on (virt_to_bus k (SCp_ptr (cmds w c))) A3000_XFER_MASK" and "alloc_in w = p # ps" and "p \<noteq> 0"
    and "unat (SCp_this_residual (cmds w c)) + 511 < 2 ^ 32"
  shows "\<exists>w' n. a3000_dma_setup k c dir w = Inr (0, w') \<and> Kmalloc n p \<in> set (events w') \<and>
    dma_bounce_buffer (hdata w') = p \<and> dma_bounce_len (hdata w') = n \<and> unat n mod 512 = 0 \<and>
    unat (SCp_this_residual (cmds w c)) \<le> unat n \<and> unat n < unat (SCp_this_residual (cmds w c)) + 512"
proof -
  let ?r = "unat (SCp_this_residual (cmds w c))"
  have "(?r + 511) div 512 * 512 + (?r + 511) mod 512 = ?r + 511" "(?r + 511) mod 512 < 512"
    by (simp_all add: div_mult_mod_eq)
  then have "?r \<le> (?r + 511) div 512 * 512" "(?r + 511) div 512 * 512 < ?r + 512" by arith+
  then show ?thesis
    using setup_bounced [OF assms(1,2,3), of dir] bounce_len_unat [OF assms(4)] by (simp add: bounced_def)
qed

theorem bounce_room_witness:
  "\<exists>w' n. a3000_dma_setup sample_kernel 3 1
     (sample_world\<lparr>cmds := (\<lambda>c. (sample_cmd c)\<lparr>SCp_ptr := 0x1002, SCp_this_residual := 600\<rparr>), alloc_in := [0x8000]\<rparr>) = Inr (0, w')
   \<and> dma_bounce_len (hdata w') = n \<and> 600 \<le> unat n \<and> unat n < 1112"
  using bounce_room [of sample_kernel "sample_world\<lparr>cmds := (\<lambda>c. (sample_cmd c)\<lparr>SCp_ptr := 0x1002, SCp_this_residual := 600\<rparr>),
      alloc_in := [0x8000]\<rparr>" 3 "0x8000" "[]" 1]
  by (auto simp: sample_kernel_def bit_on_def)

text \<open>
  C10. A transfer through the bounce buffer. Going out, the buffer holds the command's bytes when
  the DMA starts. Coming in, whatever the device has put in memory meanwhile, stopping with a true
  status copies exactly the residual bytes of the buffer to the command's data and changes no
  other memory; in both directions the buffer is freed once and forgotten.
\<close>
theorem bounce_transfer:
  assumes "bit_on (virt_to_bus k (SCp_ptr (cmds w c))) A3000_XFER_MASK" and "alloc_in w = p # ps" and "p \<noteq> 0"
    and "dir = 0 \<or> (\<exists>v \<in> set (istr_in w). bit_on v ISTR_FE_FLG)" and "status \<noteq> 0"
  shows "\<exists>w1 w2. a3000_dma_setup k c dir w = Inr (0, w1) \<and>
    (dir = 0 \<longrightarrow> (\<forall>i < SCp_this_residual (cmds w c). mem w1 (p + i) = mem w (SCp_ptr (cmds w c) + i))) \<and>
    a3000_dma_stop (Some c) status (w1\<lparr>mem := m\<rparr>) = Inr ((), w2) \<and>
    (if dir = 0 then mem w2 = m
     else (\<forall>i < SCp_this_residual (cmds w c). mem w2 (SCp_ptr (cmds w c) + i) = m (p + i)) \<and>
          (\<forall>a. \<not> a - SCp_ptr (cmds w c) < SCp_this_residual (cmds w c) \<longrightarrow> mem w2 a = m a)) \<and>
    dma_bounce_buffer (hdata w2) = 0 \<and> dma_bounce_len (hdata w2) = 0 \<and>
    (\<exists>evs. events w2 = events w @ evs \<and> filter (\<lambda>ev. ev = Kfree p) evs = [Kfree p])"
proof -
  let ?w = "(bounced k c dir p ps w)\<lparr>mem := m\<rparr>"
  have stop: "a3000_dma_stop (Some c) status ?w = Inr ((), stopped (Some c) status ?w)"
    using assms(4) by (auto simp: stop_run bounced_def)
  have no_free: "filter (\<lambda>ev. ev = Kfree p) (stop_events d is) = []" "filter (\<lambda>ev. ev = Kfree p) (start_events d a n) = []" for d "is" a n
    by (auto simp: stop_events_def start_events_def filter_empty_conv)
  have evs: "\<exists>evs. events (stopped (Some c) status ?w) = events w @ evs \<and> filter (\<lambda>ev. ev = Kfree p) evs = [Kfree p]"
    using assms(3,5) by (simp add: stopped_def bounced_def frees_def no_free)
  have out: "dir = 0 \<longrightarrow> (\<forall>i < SCp_this_residual (cmds w c). mem (bounced k c dir p ps w) (p + i) = mem w (SCp_ptr (cmds w c) + i))"
    by (simp add: bounced_def copied_def)
  have copy: "if dir = 0 then mem (stopped (Some c) status ?w) = m
     else (\<forall>i < SCp_this_residual (cmds w c). mem (stopped (Some c) status ?w) (SCp_ptr (cmds w c) + i) = m (p + i)) \<and>
          (\<forall>a. \<not> a - SCp_ptr (cmds w c) < SCp_this_residual (cmds w c) \<longrightarrow> mem (stopped (Some c) status ?w) a = m a)"
    and gone: "dma_bounce_buffer (hdata (stopped (Some c) status ?w)) = 0" "dma_bounce_len (hdata (stopped (Some c) status ?w)) = 0"
    using assms(3,5) by (simp_all add: stopped_def bounced_def frees_def copied_back_def copied_def)
  show ?thesis
    using setup_bounced [OF assms(1,2,3), of dir] out stop copy gone evs by blast
qed

theorem bounce_transfer_witness:
  "\<exists>w1 w2. a3000_dma_setup sample_kernel 3 1
     (sample_world\<lparr>cmds := (\<lambda>c. (sample_cmd c)\<lparr>SCp_ptr := 0x1002, SCp_this_residual := 4\<rparr>), alloc_in := [0x8000],
        istr_in := [0, ISTR_FE_FLG]\<rparr>) = Inr (0, w1) \<and>
     a3000_dma_stop (Some 3) 1 (w1\<lparr>mem := (\<lambda>a. ucast a)\<rparr>) = Inr ((), w2) \<and>
     (\<forall>i < 4. mem w2 (0x1002 + i) = ucast (0x8000 + i :: u32))"
  using bounce_transfer [of sample_kernel "sample_world\<lparr>cmds := (\<lambda>c. (sample_cmd c)\<lparr>SCp_ptr := 0x1002, SCp_this_residual := 4\<rparr>),
      alloc_in := [0x8000], istr_in := [0, ISTR_FE_FLG]\<rparr>" 3 "0x8000" "[]" 1 1 "\<lambda>a. ucast a"]
  by (auto simp: sample_kernel_def bit_on_def)

text \<open>
  C16. Stopping comes back exactly when it does not have to wait (the transfer went out), or the
  SDMAC reports an empty FIFO sooner or later; otherwise it polls for ever, and there is no other
  way for it to fail.
\<close>
theorem dma_stop_returns:
  "(case a3000_dma_stop s status w of
      Inr _ \<Rightarrow> dma_dir (hdata w) = 0 \<or> (\<exists>v. v \<in> set (istr_in w) \<and> bit_on v ISTR_FE_FLG)
    | Inl e \<Rightarrow> e = Waiting \<and> dma_dir (hdata w) \<noteq> 0 \<and> (\<nexists>v. v \<in> set (istr_in w) \<and> bit_on v ISTR_FE_FLG))"
  by (auto simp: stop_run)

text \<open>
  C37. A bounce buffer outlives a stop with status 0, as \<^verbatim>\<open>wd33c93_abort\<close> makes it: nothing is freed and
  the pointer stays. If the next transfer needs a bounce buffer of its own, the pointer is
  overwritten and the old buffer is not freed. If the next transfer is an input to aligned data, it
  goes to the data directly, but stopping it with a true status then copies the stale buffer over
  the data that has just been read, and frees it.
\<close>
theorem stale_bounce_buffer:
  assumes "dma_bounce_buffer (hdata w) = q" and "q \<noteq> 0" and "a3000_dma_stop s 0 w = Inr (x, w1)"
  shows "dma_bounce_buffer (hdata w1) = q \<and> (\<exists>evs. events w1 = events w @ evs \<and> (\<forall>r. Kfree r \<notin> set evs)) \<and>
    (bit_on (virt_to_bus k (SCp_ptr (cmds w1 c))) A3000_XFER_MASK \<and> alloc_in w1 = p # ps \<and> p \<noteq> 0 \<longrightarrow>
      (\<exists>w2 evs. a3000_dma_setup k c dir w1 = Inr (0, w2) \<and> dma_bounce_buffer (hdata w2) = p \<and>
         events w2 = events w @ evs \<and> Kfree q \<notin> set evs)) \<and>
    (\<not> bit_on (virt_to_bus k (SCp_ptr (cmds w1 c))) A3000_XFER_MASK \<and> dir \<noteq> 0 \<and> status \<noteq> 0 \<and>
      (\<exists>v \<in> set (istr_in w1). bit_on v ISTR_FE_FLG) \<longrightarrow>
      (\<exists>w2 w3 evs. a3000_dma_setup k c dir w1 = Inr (0, w2) \<and>
         a3000_dma_stop (Some c) status (w2\<lparr>mem := m\<rparr>) = Inr ((), w3) \<and>
         (\<forall>i < SCp_this_residual (cmds w1 c). mem w3 (SCp_ptr (cmds w1 c) + i) = m (q + i)) \<and>
         events w3 = events w1 @ evs @ [Kfree q]))"
proof -
  have w1: "w1 = stopped s 0 w" using assms(3) by (simp add: stop_run split: if_splits)
  then have ev: "events w1 = events w @ stop_events (dma_dir (hdata w)) (istr_in w)"
    and q: "dma_bounce_buffer (hdata w1) = q"
    using assms(1) by (simp_all add: stopped_def frees_def)
  have free: "Kfree r \<notin> set (stop_events d is)" "Kfree r \<notin> set (start_events d a n)" for r d "is" a n
    by (auto simp: stop_events_def start_events_def)
  have "\<exists>w2 evs. a3000_dma_setup k c dir w1 = Inr (0, w2) \<and> dma_bounce_buffer (hdata w2) = p \<and>
      events w2 = events w @ evs \<and> Kfree q \<notin> set evs"
    if "bit_on (virt_to_bus k (SCp_ptr (cmds w1 c))) A3000_XFER_MASK" "alloc_in w1 = p # ps" "p \<noteq> 0"
    using setup_bounced [OF that, of dir] ev free by (auto simp: bounced_def)
  moreover have "\<exists>w2 w3 evs. a3000_dma_setup k c dir w1 = Inr (0, w2) \<and>
      a3000_dma_stop (Some c) status (w2\<lparr>mem := m\<rparr>) = Inr ((), w3) \<and>
      (\<forall>i < SCp_this_residual (cmds w1 c). mem w3 (SCp_ptr (cmds w1 c) + i) = m (q + i)) \<and>
      events w3 = events w1 @ evs @ [Kfree q]"
    if "\<not> bit_on (virt_to_bus k (SCp_ptr (cmds w1 c))) A3000_XFER_MASK" "dir \<noteq> 0" "status \<noteq> 0"
      "\<exists>v \<in> set (istr_in w1). bit_on v ISTR_FE_FLG"
    using setup_direct [OF that(1), of dir] that(2-4) q assms(2)
    by (simp add: direct_started_def stop_run stopped_def frees_def copied_back_def copied_def)
  ultimately show ?thesis using q ev free by blast
qed

text \<open>
  A stop with status 0 while the buffer at \<open>0x7000\<close> is in use, then an input of four bytes to \<open>0x1000\<close>:
  the device has stored 1 there, the buffer holds 7, and 7 is what the command gets.
\<close>

theorem stale_bounce_buffer_witness:
  "\<exists>w1 w2 w3. a3000_dma_stop None 0 (sample_world\<lparr>hdata := sample_host\<lparr>dma_bounce_buffer := 0x7000\<rparr>,
       cmds := (\<lambda>c. (sample_cmd c)\<lparr>SCp_ptr := 0x1000, SCp_this_residual := 4\<rparr>), istr_in := [ISTR_FE_FLG]\<rparr>) = Inr ((), w1) \<and>
     a3000_dma_setup sample_kernel 3 1 w1 = Inr (0, w2) \<and>
     a3000_dma_stop (Some 3) 1 (w2\<lparr>mem := (\<lambda>a. if a < 0x7000 then 1 else 7)\<rparr>) = Inr ((), w3) \<and> mem w3 0x1000 = 7"
proof -
  let ?w = "sample_world\<lparr>hdata := sample_host\<lparr>dma_bounce_buffer := 0x7000\<rparr>,
       cmds := (\<lambda>c. (sample_cmd c)\<lparr>SCp_ptr := 0x1000, SCp_this_residual := 4\<rparr>), istr_in := [ISTR_FE_FLG]\<rparr>"
  let ?w1 = "stopped None 0 ?w" and ?m = "\<lambda>a :: u32. if a < 0x7000 then 1 else 7 :: u8"
  have m: "a3000_dma_stop None 0 ?w = Inr ((), ?w1)" by (simp add: stop_run sample_host_def)
  have i: "istr_in ?w1 = [ISTR_FE_FLG]" "cmds ?w1 3 = (sample_cmd 3)\<lparr>SCp_ptr := 0x1000, SCp_this_residual := 4\<rparr>"
    by (simp_all add: stopped_def sample_host_def)
  have "\<exists>w2 w3. a3000_dma_setup sample_kernel 3 1 ?w1 = Inr (0, w2) \<and>
      a3000_dma_stop (Some 3) 1 (w2\<lparr>mem := ?m\<rparr>) = Inr ((), w3) \<and>
      (\<forall>i < 4. mem w3 (0x1000 + i) = ?m (0x7000 + i))"
    using stale_bounce_buffer [OF _ _ m, of "0x7000" sample_kernel 3 0 "[]" 1 1 ?m]
    by (auto simp: i sample_kernel_def bit_on_def)
  then obtain w2 w3 where "a3000_dma_setup sample_kernel 3 1 ?w1 = Inr (0, w2)"
    "a3000_dma_stop (Some 3) 1 (w2\<lparr>mem := ?m\<rparr>) = Inr ((), w3)" "\<forall>i < 4. mem w3 (0x1000 + i) = ?m (0x7000 + i)" by blast
  moreover from this(3) [rule_format, of 0] have "mem w3 0x1000 = 7" by simp
  ultimately show ?thesis using m by blast
qed

end
