(* ===== verification/FaultFree.thy ===== *)
theory FaultFree
  imports Lifecycle
begin

text \<open>
  Which faults the driver can run into. \<open>only F P m\<close>: a run of \<open>m\<close> from a state in \<open>P\<close> can fail
  with the faults in \<open>F\<close> only. The state predicate \<open>sane\<close> says that the lock is held or free,
  that the arrays have their lengths and the period table its shape, that both queues are
  NULL-terminated lists and that every waiting command has a target and a lun the busy map has room
  for. It depends on \<open>core\<close>, a part of the driver's memory most of the code leaves alone.
\<close>

section \<open>The judgement\<close>

definition only :: "fault set \<Rightarrow> ('s \<Rightarrow> bool) \<Rightarrow> ('s, 'a) prog \<Rightarrow> bool" where
  "only F P m \<longleftrightarrow> (\<forall>w f. P w \<longrightarrow> m w = Inl f \<longrightarrow> f \<in> F)"

named_theorems onl "the faults of a piece of the driver"

lemma onlyD: "only F P m \<Longrightarrow> m w = Inl f \<Longrightarrow> P w \<Longrightarrow> f \<in> F"
  by (auto simp: only_def)

lemma only_bnd:
  "only F P m \<Longrightarrow> hoare P m S \<Longrightarrow> (\<And>x. only F (S x) (f x)) \<Longrightarrow> only F P (bnd m f)"
  unfolding only_def hoare_def bnd_def by (fastforce split: sum.splits)

lemma only_thn: "only F P m \<Longrightarrow> hoare P m (\<lambda>_. S) \<Longrightarrow> only F S n \<Longrightarrow> only F P (thn m n)"
  unfolding thn_def by (rule only_bnd)

lemma only_pre: "only F P m \<Longrightarrow> (\<And>w. P' w \<Longrightarrow> P w) \<Longrightarrow> only F P' m"
  by (auto simp: only_def)

lemma only_mono: "only F P m \<Longrightarrow> F \<subseteq> G \<Longrightarrow> only G P m"
  by (auto simp: only_def)

lemma only_ret [onl]: "only F P (ret x)"
  by (simp add: only_def ret_run)

lemma only_modify [onl]: "only F P (modify f)"
  by (simp add: only_def modify_run)

lemma only_mods [onl]: "only F P (mod_hd g)" "only F P (mod_cmd c h)" "only F P (mod_dev d i)" "only F P (emit ev)"
  by (simp_all add: only_def run_simps)

lemma only_peek: "(\<And>w0. P w0 \<Longrightarrow> only F P (f w0)) \<Longrightarrow> only F P (peek f)"
  unfolding only_def peek_run by blast

lemma only_if: "(b \<Longrightarrow> only F P m) \<Longrightarrow> (\<not> b \<Longrightarrow> only F P n) \<Longrightarrow> only F P (if b then m else n)"
  by simp

lemma only_when: "(b \<Longrightarrow> only F P m) \<Longrightarrow> only F P (when_do b m)"
  by (simp add: when_do_def only_ret)

lemma only_get: "i < length xs \<Longrightarrow> only F P (f (xs ! i)) \<Longrightarrow> only F P (bnd (arr_get xs i) f)"
  by (simp add: only_def bnd_def arr_get_def ret_run)

lemma only_ok: "i < length xs \<Longrightarrow> only F P n \<Longrightarrow> only F P (thn (arr_ok xs i) n)"
  by (simp add: only_def thn_def bnd_def arr_ok_def ret_run)

lemma only_lift: "r = Inr x \<Longrightarrow> only F P (f x) \<Longrightarrow> only F P (bnd (lift r) f)"
  by (simp add: only_def bnd_def lift_def)

lemma only_deref:
  "(p = None \<Longrightarrow> Null_deref \<in> F) \<Longrightarrow> (\<And>c. p = Some c \<Longrightarrow> only F P (f c)) \<Longrightarrow> only F P (deref p f)"
  by (cases p) (auto simp: only_def deref_def throw_run)

lemma only_option:
  "(p = None \<Longrightarrow> only F P m) \<Longrightarrow> (\<And>c. p = Some c \<Longrightarrow> only F P (f c)) \<Longrightarrow>
   only F P (case p of None \<Rightarrow> m | Some c \<Rightarrow> f c)"
  by (cases p) auto

lemma only_throw: "e \<in> F \<Longrightarrow> only F P (throw e)"
  by (simp add: only_def throw_run)

lemma only_last: "only F P m \<Longrightarrow> only F P (thn m (ret x))"
  by (auto simp: only_def run_simps split: sum.splits)

section \<open>Register access can only wait\<close>

lemma only_rd [onl]:
  assumes "Waiting \<in> F"
  shows "only F P rd_SCMD" "only F P rd_SASR" "only F P read_aux_stat" "only F P (read_wd33c93 r)"
    "only F P read_wd33c93_count"
  using assms
  by (auto simp: only_def rd_SCMD.simps rd_SASR.simps run_simps read_wd33c93_count_def wr_SASR_def split: list.splits)

lemma only_wr [onl]: "only F P (write_wd33c93 r v)" "only F P (write_wd33c93_cmd v)" "only F P (write_wd33c93_count n)"
  by (simp_all add: only_def run_simps write_wd33c93_count_def wr_SASR_def wr_SCMD_def)

lemma only_poll: "Waiting \<in> F \<Longrightarrow> only F P (poll_1_byte x)"
proof -
  assume F: "Waiting \<in> F"
  have "poll_1_byte x w = Inl f \<Longrightarrow> f = Waiting" for w f
  proof (induction x w rule: poll_1_byte.induct)
    case (1 x w)
    show ?case
      using "1.prems" "1.IH"
      by (subst (asm) poll_1_byte.simps) (auto simp: run_simps split: sum.splits if_splits prod.splits list.splits)
  qed
  with F show ?thesis by (auto simp: only_def)
qed

lemma only_read_1_byte [onl]: "Waiting \<in> F \<Longrightarrow> only F P read_1_byte"
  using only_poll [of F "\<lambda>_. True" 0] by (auto simp: only_def read_1_byte_def run_simps)

lemma wr_cdb_runs: "i + n \<le> length bytes \<Longrightarrow> \<exists>w'. wr_cdb_from n i bytes w = Inr ((), w')"
proof (induction n arbitrary: i w)
  case (Suc n)
  then show ?case
    using Suc.IH [of "Suc i" "w\<lparr>events := events w @ [Wr_SCMD (bytes ! i)]\<rparr>"]
    by (simp add: run_simps wr_SCMD_def)
qed (simp add: run_simps)

lemma only_write_cdb [onl]: "n \<le> length bytes \<Longrightarrow> only F P (write_wd33c93_cdb n bytes)"
  unfolding only_def
proof (intro allI impI)
  fix w f assume "n \<le> length bytes" and m: "write_wd33c93_cdb n bytes w = Inl f"
  then show "f \<in> F"
    using wr_cdb_runs [of 0 n bytes "w\<lparr>events := events w @ [Wr_SASR WD_CDB_1]\<rparr>"]
    by (auto simp: write_wd33c93_cdb_def run_simps wr_SASR_def)
qed

lemma only_wait_int [onl]:
  assumes "Waiting \<in> F"
  shows "only F P (wait_int n a)"
proof -
  have "wait_int n a w = Inl f \<Longrightarrow> f = Waiting" for w f
  proof (induction n arbitrary: a w)
    case (Suc n)
    then show ?case by (auto simp: run_simps split: list.splits if_splits)
  qed (simp add: run_simps)
  with assms show ?thesis by (auto simp: only_def)
qed

section \<open>The part of the memory the faults depend on\<close>

definition core :: "world \<Rightarrow> (bool \<times> nat list \<times> sx_period list) \<times> (cptr option \<times> cptr option) \<times>
    (cptr \<Rightarrow> cptr option \<times> dptr \<times> nat \<times> u16) \<times> (dptr \<Rightarrow> u32 \<times> u64)" where
  "core w =
     ((lock (hdata w),
       [length (busy (hdata w)), length (incoming_msg (hdata w)), length (outgoing_msg (hdata w)),
        length (sync_xfer (hdata w)), length (sync_stat (hdata w)), length (cmd_cnt (hdata w)),
        length (disc_allowed_cnt (hdata w)), length (disc_done_cnt (hdata w))],
       sx_table (hdata w)),
      (input_Q (hdata w), disconnected_Q (hdata w)),
      (\<lambda>c. (host_scribble (cmds w c), device (cmds w c), length (cmnd (cmds w c)), cmd_len (cmds w c))),
      (\<lambda>d. (dev_id (devs w d), dev_lun (devs w d))))"

definition arrays_ok :: "world \<Rightarrow> bool" where
  "arrays_ok w \<longleftrightarrow> wf_host (hdata w) \<and> sx_ok (sx_table (hdata w)) \<and>
     (\<forall>c. 0 < length (cmnd (cmds w c)) \<and> unat (cmd_len (cmds w c)) \<le> length (cmnd (cmds w c)))"

definition sane :: "bool \<Rightarrow> (cptr \<Rightarrow> nat \<times> nat) \<Rightarrow> cptr list \<Rightarrow> cptr list \<Rightarrow> world \<Rightarrow> bool" where
  "sane b A xs ys w \<longleftrightarrow> lock (hdata w) = b \<and> arrays_ok w \<and> addr_of w = A \<and>
     queue_of input_Q w xs \<and> queue_of disconnected_Q w ys \<and>
     (\<forall>c \<in> set xs. ok_addr A c) \<and> set xs \<inter> set ys = {}"

lemma arrays_okD:
  assumes "arrays_ok w"
  shows "length (busy (hdata w)) = 8" "length (incoming_msg (hdata w)) = 8" "length (outgoing_msg (hdata w)) = 8"
    "length (sync_xfer (hdata w)) = 8" "length (sync_stat (hdata w)) = 8" "length (cmd_cnt (hdata w)) = 8"
    "length (disc_allowed_cnt (hdata w)) = 8" "length (disc_done_cnt (hdata w)) = 8"
    "length (sx_table (hdata w)) = 9" "sx_ok (sx_table (hdata w))" "0 < length (cmnd (cmds w c))"
    "unat (cmd_len (cmds w c)) \<le> length (cmnd (cmds w c))"
  using assms by (auto simp: arrays_ok_def wf_host_def)

lemma core_eqD:
  assumes "core w' = core w"
  shows "lock (hdata w') = lock (hdata w)" "length (busy (hdata w')) = length (busy (hdata w))"
    "length (incoming_msg (hdata w')) = length (incoming_msg (hdata w))"
    "length (outgoing_msg (hdata w')) = length (outgoing_msg (hdata w))"
    "length (sync_xfer (hdata w')) = length (sync_xfer (hdata w))"
    "length (sync_stat (hdata w')) = length (sync_stat (hdata w))"
    "length (cmd_cnt (hdata w')) = length (cmd_cnt (hdata w))"
    "length (disc_allowed_cnt (hdata w')) = length (disc_allowed_cnt (hdata w))"
    "length (disc_done_cnt (hdata w')) = length (disc_done_cnt (hdata w))"
    "sx_table (hdata w') = sx_table (hdata w)"
    "input_Q (hdata w') = input_Q (hdata w)" "disconnected_Q (hdata w') = disconnected_Q (hdata w)"
    "host_scribble (cmds w' c) = host_scribble (cmds w c)" "device (cmds w' c) = device (cmds w c)"
    "length (cmnd (cmds w' c)) = length (cmnd (cmds w c))" "cmd_len (cmds w' c) = cmd_len (cmds w c)"
    "dev_id (devs w' d) = dev_id (devs w d)" "dev_lun (devs w' d) = dev_lun (devs w d)"
  using assms by (simp_all add: core_def fun_eq_iff)

lemma core_sane:
  assumes "core w' = core w" and "sane b A xs ys w"
  shows "sane b A xs ys w'"
proof -
  note c = core_eqD [OF assms(1)]
  have "addr_of w' = addr_of w" by (rule ext) (simp add: addr_of_def c)
  moreover have "arrays_ok w'"
    using assms(2) by (auto simp: sane_def arrays_ok_def wf_host_def c)
  ultimately show ?thesis
    using assms(2) by (auto simp: sane_def c intro: queue_of_frame)
qed

lemma sane_keeps: "keeps core m \<Longrightarrow> hoare (sane b A xs ys) m (\<lambda>_. sane b A xs ys)"
  unfolding hoare_def keeps_def using core_sane by blast

lemma only_skip: "keeps core m \<Longrightarrow> only F (sane b A xs ys) m \<Longrightarrow> only F (sane b A xs ys) n \<Longrightarrow>
  only F (sane b A xs ys) (thn m n)"
  by (rule only_thn, assumption, rule sane_keeps)

lemma only_skip_bnd: "keeps core m \<Longrightarrow> only F (sane b A xs ys) m \<Longrightarrow> (\<And>x. only F (sane b A xs ys) (f x)) \<Longrightarrow>
  only F (sane b A xs ys) (bnd m f)"
  by (rule only_bnd, assumption, rule sane_keeps)

lemma only_seqs:
  "keeps core m \<Longrightarrow> only F (sane b A xs ys) m \<Longrightarrow> only F (sane b A xs ys) (seqs ms) \<Longrightarrow>
   only F (sane b A xs ys) (seqs (m # ms))"
  by (simp add: only_skip)

lemma sane_addr: "sane b A xs ys w \<Longrightarrow> ok_addr A c \<Longrightarrow> id_of w c < 8 \<and> unat (dev_lun (dev_of w c)) < 8"
proof -
  assume "sane b A xs ys w" and ok: "ok_addr A c"
  then have "A = addr_of w" by (simp add: sane_def)
  with ok show ?thesis by (simp add: ok_addr_def addr_of_def)
qed

lemma sane_arrays: "sane b A xs ys w \<Longrightarrow> arrays_ok w"
  by (simp add: sane_def)

section \<open>What keeps it\<close>

named_theorems fk "a program keeps the core"

lemmas [fk] = keeps_ret keeps_throw keeps_bnd keeps_thn keeps_peek keeps_if keeps_when
  keeps_arr_get keeps_arr_ok keeps_lift keeps_deref keeps_option keeps_prod keeps_seqs_Nil keeps_seqs_Cons

lemma io_free_core: "keeps io_free m \<Longrightarrow> keeps core m"
proof -
  have "core (io_free w) = core w" for w by (simp add: core_def io_free_def)
  then show "keeps io_free m \<Longrightarrow> keeps core m" unfolding keeps_def by metis
qed

lemma dma_free_core: "keeps dma_free m \<Longrightarrow> keeps core m"
proof -
  have "core (dma_free w) = core w" for w by (simp add: core_def dma_free_def io_free_def)
  then show "keeps dma_free m \<Longrightarrow> keeps core m" unfolding keeps_def by metis
qed

lemmas [fk] = io_free_core [OF keeps_write_wd33c93] io_free_core [OF keeps_write_cmd]
  io_free_core [OF keeps_write_count] io_free_core [OF keeps_read_wd33c93] io_free_core [OF keeps_write_cdb]
  io_free_core [OF keeps_read_count] io_free_core [OF keeps_read_1_byte]
  io_free_core [OF io_keeps(5)] io_free_core [OF keeps_write_destination]

lemma core_hd [fk]:
  assumes "\<And>h. lock (f h) = lock h" "\<And>h. length (busy (f h)) = length (busy h)"
    "\<And>h. length (incoming_msg (f h)) = length (incoming_msg h)"
    "\<And>h. length (outgoing_msg (f h)) = length (outgoing_msg h)"
    "\<And>h. length (sync_xfer (f h)) = length (sync_xfer h)" "\<And>h. length (sync_stat (f h)) = length (sync_stat h)"
    "\<And>h. length (cmd_cnt (f h)) = length (cmd_cnt h)"
    "\<And>h. length (disc_allowed_cnt (f h)) = length (disc_allowed_cnt h)"
    "\<And>h. length (disc_done_cnt (f h)) = length (disc_done_cnt h)" "\<And>h. sx_table (f h) = sx_table h"
    "\<And>h. input_Q (f h) = input_Q h" "\<And>h. disconnected_Q (f h) = disconnected_Q h"
  shows "keeps core (mod_hd f)"
  by (rule keeps_mod_hd) (simp add: core_def assms)

lemma core_cmd [fk]:
  assumes "\<And>k. host_scribble (f k) = host_scribble k" "\<And>k. device (f k) = device k"
    "\<And>k. length (cmnd (f k)) = length (cmnd k)" "\<And>k. cmd_len (f k) = cmd_len k"
  shows "keeps core (mod_cmd c f)"
  by (rule keeps_mod_cmd) (simp add: core_def assms fun_eq_iff)

lemma core_dev [fk]:
  assumes "\<And>d. dev_id (f d) = dev_id d" "\<And>d. dev_lun (f d) = dev_lun d"
  shows "keeps core (mod_dev d f)"
  by (rule keeps_mod_dev) (simp add: core_def assms fun_eq_iff)

lemma core_emit [fk]: "keeps core (emit ev)"
  by (rule keeps_emit) (simp add: core_def)

lemma core_busy [fk]: "keeps core (set_busy c)" "keeps core (clear_busy c)"
  unfolding set_busy_def clear_busy_def by (intro fk; simp)+

lemma core_mark_queue [fk]: "keeps core (mark_queue p)"
proof -
  have "(\<lambda>c. (host_scribble (cs' c), device (cs' c), length (cmnd (cs' c)), cmd_len (cs' c))) =
      (\<lambda>c. (host_scribble (cs c), device (cs c), length (cmnd (cs c)), cmd_len (cs c)))"
    if "mark_phase p cs = Some cs'" for cs cs'
    using that
  proof (induction p cs cs' rule: mark_phase.raw_induct [rotated, consumes 1])
    case (1 mp p cs cs')
    then show ?case by (auto simp: Let_def fun_eq_iff split: option.splits if_splits)
  qed
  then show ?thesis
    by (auto simp: mark_queue_def keeps_def run_simps core_def split: option.splits)
qed

lemma core_exec_parts [fk]: "keeps core (count_cmd c)" "keeps core (allow_disconnect c)"
  "keeps core (disconnect_policy c)" "keeps core (select_registers c)" "keeps core (start_select c)"
  unfolding count_cmd_def select_registers_def start_select_def
  subgoal by (intro fk; simp)
  subgoal unfolding allow_disconnect_def by (intro fk; simp)
  subgoal unfolding disconnect_policy_def allow_disconnect_def by (intro fk; simp)
  subgoal by (intro fk)
  subgoal by (intro fk; simp)
  done

lemma core_small [fk]: "keeps core (set_state s)" "keeps core (set_outgoing_len n)"
  "keeps core (set_sync_stat t ss)" "keeps core (drop_connected c)" "keeps core (negate_ack s)"
  unfolding negate_ack_def set_state_def set_outgoing_len_def set_sync_stat_def drop_connected_def
  by (intro fk; simp)+

lemma core_put_out [fk]: "keeps core (put_out i vs)"
proof (induction i vs rule: put_out.induct)
  case (2 i v vs)
  show ?case unfolding put_out.simps by (intro fk "2.IH"; simp)
qed (simp add: keeps_ret)

lemma core_pio [fk]: "keeps core (pio_load b i)" "keeps core (pio_store b i v)" "keeps core (pio_move d b i)"
proof -
  show 1: "keeps core (pio_load b i)" for b i
    unfolding pio_load_def by (intro fk) (cases b; simp add: keeps_ret keeps_arr_get)
  show 2: "keeps core (pio_store b i v)" for b i v
    unfolding pio_store_def by (rule keeps_peek) (cases b; auto intro!: fk keeps_modify simp: core_def)
  show "keeps core (pio_move d b i)" unfolding pio_move_def by (intro fk 1 2)
qed

lemma core_pio_loop [fk]: "keeps core (pio_loop d b i)"
proof (rule keepsI)
  fix w v w'
  show "pio_loop d b i w = Inr (v, w') \<Longrightarrow> core w' = core w"
  proof (induction d b i w arbitrary: v w' rule: pio_loop.induct)
    case (1 d b i w)
    show ?case
      using "1.prems" "1.IH"
      by (subst (asm) pio_loop.simps)
        (auto split: sum.splits if_splits prod.splits
          dest!: keepsD [OF io_free_core [OF io_keeps(5)]] keepsD [OF core_pio(3)])
  qed
qed

lemma core_transfer [fk]: "keeps core (transfer_pio b n d)" "keeps core (next_sg c)"
  "keeps core (update_residual c)" "keeps core (pio_bytes c d)" "keeps core (dma_bytes c)"
  unfolding pio_bytes_def dma_bytes_def transfer_pio_def next_sg_def update_residual_def
  by (intro fk; simp)+

lemma core_messages [fk]: "keeps core (offer_sync t)" "keeps core msg_restore" "keeps core (msg_reject c)"
  "keeps core answer_async" "keeps core ext_wdtr" "keeps core reject_msg" "keeps core (store_msg m)"
  unfolding offer_sync_def msg_restore_def msg_reject_def answer_async_def ext_wdtr_def reject_msg_def store_msg_def
  by (intro fk; simp)+

lemma core_ext [fk]: "keeps core (ext_sdtr c)" "keeps core (msg_extended c)" "keeps core (handle_msg c m)"
proof -
  show 1: "keeps core (ext_sdtr c)" for c unfolding ext_sdtr_def Let_def by (intro fk; simp)
  show 2: "keeps core (msg_extended c)" for c unfolding msg_extended_def Let_def by (intro fk 1; simp)
  show "keeps core (handle_msg c m)" unfolding handle_msg_def by (intro fk 2; simp)
qed

lemma core_late [fk]: "keeps core (set_result e c)" "keeps core (wait_int n a)" "keeps core (resel_lun a s)"
  "keeps core (resume c)"
proof -
  show "keeps core (set_result e c)" unfolding set_result_def by (intro fk; simp)
  show 1: "keeps core (wait_int n a)" for n a by (induction n arbitrary: a) (auto intro!: fk)
  show "keeps core (resel_lun a s)" unfolding resel_lun_def resel_lun_old_def by (intro fk 1)
  show "keeps core (resume c)" unfolding resume_def by (intro fk)
qed

section \<open>Starting a command\<close>

text \<open>Facts about the state at hand: the arrays have room for the command's target.\<close>

lemma sane_room:
  assumes "sane b A xs ys w" and "ok_addr A c"
  shows "id_of w c < length (busy (hdata w))" "id_of w c < length (sync_xfer (hdata w))"
    "id_of w c < length (sync_stat (hdata w))" "id_of w c < length (cmd_cnt (hdata w))"
    "id_of w c < length (disc_allowed_cnt (hdata w))" "id_of w c < length (disc_done_cnt (hdata w))"
  using sane_addr [OF assms] arrays_okD [OF sane_arrays [OF assms(1)]] by simp_all

lemma only_busy:
  assumes "ok_addr A c"
  shows "only F (sane b A xs ys) (set_busy c)" "only F (sane b A xs ys) (clear_busy c)"
proof -
  have "addr_ok w c \<and> length (busy (hdata w)) = 8" if "sane b A xs ys w" for w
    using sane_addr [OF that assms] arrays_okD(1) [OF sane_arrays [OF that]] by (simp add: addr_ok_def)
  then show "only F (sane b A xs ys) (set_busy c)" "only F (sane b A xs ys) (clear_busy c)"
    unfolding only_def using set_busy_run clear_busy_run by (metis sum.distinct(1))+
qed

lemma mark_phase_linked:
  assumes "linked (\<lambda>c. host_scribble (cs c)) p xs"
  shows "mark_phase p cs \<noteq> None"
  using assms
proof (induction xs arbitrary: p cs)
  case Nil
  then show ?case by (simp add: mark_phase.simps)
next
  case (Cons x xs)
  let ?cs = "cs(x := (cs x)\<lparr>SCp_phase := 1\<rparr>)"
  have "linked (\<lambda>c. host_scribble (?cs c)) (host_scribble (?cs x)) xs"
    using Cons.prems by (auto intro: linked_cong)
  from Cons.IH [OF this] show ?case
    using Cons.prems by (subst mark_phase.simps) (simp add: Let_def fun_upd_def)
qed

lemma sane_head: "sane b A xs ys w \<Longrightarrow> input_Q (hdata w) = (case xs of [] \<Rightarrow> None | x # _ \<Rightarrow> Some x)"
  by (cases xs) (auto simp: sane_def queue_of_def)

lemma only_mark_queue:
  assumes "sane b A xs ys w0"
  shows "only F (sane b A xs ys) (mark_queue (input_Q (hdata w0)))"
proof -
  have "mark_phase (input_Q (hdata w0)) (cmds w) \<noteq> None" if "sane b A xs ys w" for w
    using that mark_phase_linked [of "cmds w" "input_Q (hdata w)" xs] sane_head [OF assms] sane_head [OF that]
    by (auto simp: sane_def queue_of_def)
  then show ?thesis unfolding only_def mark_queue_def peek_run
    by (metis modify_run option.case_eq_if sum.distinct(1))
qed

lemma search_total:
  assumes "linked nxt p xs" and "\<And>y. y \<in> set xs \<Longrightarrow> stop y = Inr (P y)"
  shows "\<exists>r. search stop nxt p = Inr r"
proof (cases "\<exists>c \<in> set xs. P c")
  case True
  then obtain ys c zs where xs: "xs = ys @ c # zs" "P c" "\<forall>y \<in> set ys. \<not> P y"
    using split_list_first_propE by metis
  then have "search stop nxt p = Inr (last_opt ys, Some c)"
    using assms by (intro search_found) auto
  then show ?thesis by blast
next
  case False
  then have "search stop nxt p = Inr (last_opt xs, None)"
    using assms by (intro search_none) auto
  then show ?thesis by blast
qed

lemma only_count:
  assumes "ok_addr A c"
  shows "only F (sane b A xs ys) (count_cmd c)" "only F (sane b A xs ys) (allow_disconnect c)"
proof -
  show "only F (sane b A xs ys) (count_cmd c)"
    unfolding count_cmd_def by (intro only_peek only_get onl sane_room [OF _ assms])
  show "only F (sane b A xs ys) (allow_disconnect c)"
    unfolding allow_disconnect_def
    by (intro only_skip only_peek only_get onl fk sane_room [OF _ assms]) simp_all
qed

lemma only_write_destination [onl]: "only F P (write_destination c)"
  unfolding write_destination_def by (intro only_peek only_if onl)

lemma only_disconnect_policy:
  assumes ok: "ok_addr A c"
  shows "only F (sane b A xs ys) (disconnect_policy c)"
  unfolding disconnect_policy_def
proof (intro only_skip only_peek only_if onl only_count [OF ok])
  show "keeps core (mod_cmd c (\<lambda>k. k\<lparr>SCp_phase := 0\<rparr>))" by (intro fk) simp_all
  fix w assume w: "sane b A xs ys w"
  have "linked (next_of w) (input_Q (hdata w)) xs" using w by (simp add: sane_def queue_of_def)
  from search_total [OF this other_target_def [of w c]]
  obtain r where r: "search (other_target w c) (next_of w) (input_Q (hdata w)) = Inr r" ..
  show "only F (sane b A xs ys) (bnd (lift (search (other_target w c) (next_of w) (input_Q (hdata w)))) (\<lambda>(prev, cur).
      case cur of None \<Rightarrow> ret () | Some p \<Rightarrow> thn (mark_queue (input_Q (hdata w))) (allow_disconnect c)))"
  proof (rule only_lift [OF r], cases r)
    fix prev cur assume "r = (prev, cur)"
    then show "only F (sane b A xs ys) (case r of (prev, cur) \<Rightarrow>
        case cur of None \<Rightarrow> ret () | Some p \<Rightarrow> thn (mark_queue (input_Q (hdata w))) (allow_disconnect c))"
      by (cases cur) (simp_all add: only_ret only_skip core_mark_queue only_mark_queue [OF w] only_count [OF ok])
  qed
qed

lemma only_select_registers:
  assumes "ok_addr A c"
  shows "only F (sane b A xs ys) (select_registers c)"
  unfolding select_registers_def
  by (intro only_peek only_skip only_get onl fk sane_room [OF _ assms] only_busy [OF assms])

lemma only_start_select:
  assumes "ok_addr A c"
  shows "only F (sane b A xs ys) (start_select c)"
  unfolding start_select_def seqs.simps
  by (intro only_peek only_skip only_get onl only_when fk sane_room [OF _ assms]) simp_all

lemma sane_unlock: "hoare (sane True A xs ys) spin_unlock (\<lambda>_. sane False A xs ys)"
  unfolding spin_unlock_def
  by (rule hoareI) (auto simp: run_simps sane_def arrays_ok_def wf_host_def queue_of_hdata split: if_splits)

lemma only_unlock: "only F (sane True A xs ys) spin_unlock"
  unfolding spin_unlock_def by (rule only_peek) (simp add: sane_def only_mods)

lemma only_unlock_then: "only F (sane False A xs ys) n \<Longrightarrow> only F (sane True A xs ys) (thn spin_unlock n)"
  by (rule only_thn [OF only_unlock sane_unlock])

text \<open>The first waiting command that may start leaves the queue.\<close>

lemma arrays_frame:
  "wf_host (hdata w') = wf_host (hdata w) \<Longrightarrow> sx_table (hdata w') = sx_table (hdata w) \<Longrightarrow>
   (\<And>c. cmnd (cmds w' c) = cmnd (cmds w c)) \<Longrightarrow> (\<And>c. cmd_len (cmds w' c) = cmd_len (cmds w c)) \<Longrightarrow>
   arrays_ok w' = arrays_ok w"
  by (simp add: arrays_ok_def)

lemma unlink_frame:
  "lock (hdata (unlink_q input_Q_update p c w)) = lock (hdata w)"
  "lock (hdata (unlink_q disconnected_Q_update p c w)) = lock (hdata w)"
  "arrays_ok (unlink_q input_Q_update p c w) = arrays_ok w"
  "arrays_ok (unlink_q disconnected_Q_update p c w) = arrays_ok w"
proof -
  show "lock (hdata (unlink_q input_Q_update p c w)) = lock (hdata w)"
    "lock (hdata (unlink_q disconnected_Q_update p c w)) = lock (hdata w)"
    by (cases p; simp add: unlink_q_def)+
  show "arrays_ok (unlink_q input_Q_update p c w) = arrays_ok w"
    "arrays_ok (unlink_q disconnected_Q_update p c w) = arrays_ok w"
    by (rule arrays_frame; cases p; simp add: unlink_q_def wf_host_def)+
qed

lemma sane_unlink_in:
  assumes "sane b A (l @ c # r) ys w"
  shows "sane b A (l @ r) ys (unlink_q input_Q_update (last_opt l) c w)"
proof -
  let ?w = "unlink_q input_Q_update (last_opt l) c w"
  have q: "queue_of input_Q w (l @ c # r)" "queue_of disconnected_Q w ys" "set l \<inter> set ys = {}"
    using assms by (auto simp: sane_def)
  show ?thesis
    unfolding sane_def unlink_frame addr_of_unlink
    using assms iq.unlink [OF q(1)] iq.unlink_other [OF q(2,3)] unfolding sane_def by (intro conjI) auto
qed

section \<open>The DMA interface, with faults\<close>

text \<open>Neither DMA operation does worse than wait for the hardware.\<close>

locale dma_waits = dma_host +
  assumes setup_waits: "dma_setup e c dir w = Inl f \<Longrightarrow> f = Waiting"
    and stop_waits: "dma_stop e p status w = Inl f \<Longrightarrow> f = Waiting"
begin

lemma core_dma: "keeps core (dma_setup e c dir)" "keeps core (dma_stop e p status)"
  by (rule dma_free_core [OF setup_free], rule dma_free_core [OF stop_free])

lemma only_dma: "Waiting \<in> F \<Longrightarrow> only F P (dma_setup e c dir)" "Waiting \<in> F \<Longrightarrow> only F P (dma_stop e p status)"
  unfolding only_def using setup_waits stop_waits by metis+

lemma core_prepare_data: "keeps core (prepare_data e c)"
  unfolding prepare_data_def by (intro fk core_dma) simp_all

lemma only_prepare_data:
  assumes "Waiting \<in> F"
  shows "only F (sane b A xs ys) (prepare_data e c)"
  unfolding prepare_data_def seqs.simps
  by (intro only_peek only_if only_skip_bnd only_skip core_dma fk only_dma [OF assms] onl) simp_all

lemma only_start_select_xfer:
  assumes "Waiting \<in> F"
  shows "only F (sane b A xs ys) (start_select_xfer e c)"
  unfolding start_select_xfer_def seqs.simps
  by (intro only_peek only_skip core_prepare_data only_prepare_data [OF assms] fk onl
      arrays_okD(12) sane_arrays) simp_all

lemma only_start_cmd:
  assumes "Waiting \<in> F" and "ok_addr A c"
  shows "only F (sane b A xs ys) (start_cmd e c)"
  unfolding start_cmd_def seqs.simps
  by (intro only_last only_skip only_count(1) only_disconnect_policy only_select_registers only_peek only_get only_if
      only_start_select only_start_select_xfer sane_room [OF _ assms(2)] fk onl assms)

lemma only_execute:
  assumes "Waiting \<in> F"
  shows "only F (sane b A xs ys) (wd33c93_execute e)"
  unfolding wd33c93_execute_def
proof (intro only_peek only_if onl)
  fix w assume w: "sane b A xs ys w"
  have l: "linked (next_of w) (input_Q (hdata w)) xs" using w by (simp add: sane_def queue_of_def)
  have run: "runnable w y = Inr (addr_of w y \<notin> busy_set (busy (hdata w)))" if "y \<in> set xs" for y
    using w that arrays_okD(1) [OF sane_arrays [OF w]]
    by (intro runnable_ok) (auto simp: sane_def ok_addr_of [symmetric])
  obtain prev cur where r: "search (runnable w) (next_of w) (input_Q (hdata w)) = Inr (prev, cur)"
    using search_total [of "next_of w" "input_Q (hdata w)" xs "runnable w", OF l run] by (metis surj_pair)
  have "only F (sane b A xs ys) (case cur of None \<Rightarrow> ret ()
      | Some c \<Rightarrow> thn (modify (unlink_q input_Q_update prev c)) (start_cmd e c))"
  proof (rule search_linkedE [OF r l run])
    assume "cur = None"
    then show ?thesis by (simp add: only_ret)
  next
    fix c ls rs
    assume found: "cur = Some c" "xs = ls @ c # rs" "prev = last_opt ls"
    have ok: "ok_addr A c" using w found by (auto simp: sane_def)
    have "hoare (sane b A xs ys) (modify (unlink_q input_Q_update (last_opt ls) c)) (\<lambda>_. sane b A (ls @ rs) ys)"
      unfolding found(2) by (rule hoare_modify) (rule sane_unlink_in)
    from only_thn [OF only_modify this [folded found(2)] only_start_cmd [OF assms ok]] show ?thesis
      by (simp add: found(1,3))
  qed assumption
  then show "only F (sane b A xs ys) (bnd (lift (search (runnable w) (next_of w) (input_Q (hdata w))))
      (\<lambda>(prev, cur). case cur of None \<Rightarrow> ret ()
         | Some c \<Rightarrow> thn (modify (unlink_q input_Q_update prev c)) (start_cmd e c)))"
    by (intro only_lift [OF r]) simp
qed

lemma only_tail:
  assumes "Waiting \<in> F"
  shows "only F (sane True A xs ys) (thn spin_unlock (wd33c93_execute e))"
  by (rule only_thn [OF only_unlock sane_unlock only_execute [OF assms]])

end

section \<open>The A3000 provides it\<close>

lemma kmalloc_waits: "kmalloc n w = Inl f \<Longrightarrow> f = Waiting"
  by (auto simp: kmalloc.simps split: list.splits)

lemma wait_flush_waits: "wait_flush w = Inl f \<Longrightarrow> f = Waiting"
proof (induction w rule: wait_flush.induct)
  case (1 w)
  then show ?case
    by (subst (asm) (2) wait_flush.simps) (auto simp: rd_ISTR.simps split: list.splits if_splits)
qed

lemma a3000_setup_waits: "a3000_dma_setup k c d w = Inl f \<Longrightarrow> f = Waiting"
  by (auto simp: a3000_dma_setup_def get_bounce_def start_dma_def memcpy_def wr_reg_def Let_def run_simps
      dest: kmalloc_waits split: if_splits sum.splits option.splits)

lemma a3000_stop_waits: "a3000_dma_stop p s w = Inl f \<Longrightarrow> f = Waiting"
  by (auto simp: a3000_dma_stop_def put_bounce_def memcpy_def wr_reg_def run_simps
      dest: wait_flush_waits split: if_splits sum.splits option.splits)

interpretation a3w: dma_waits "a3000_env k" for k
  by unfold_locales (simp_all add: a3000_setup_waits a3000_stop_waits)

end
