(* ===== verification/IntrFaults.thy ===== *)
theory IntrFaults
  imports FaultFree Sample
begin

text \<open>
  The faults of the interrupt handler, case by case, and together: from a sane state the handler
  fails only when the chip reports something that does not fit what it is doing, and then in
  precisely known ways.
\<close>

section \<open>More rules\<close>

lemma only_weaken: "only F (sane b A xs ys) m \<Longrightarrow> only F (\<lambda>w. sane b A xs ys w \<and> I w) m"
  by (auto simp: only_def)

lemma only_arr_ok: "i < length xs \<Longrightarrow> only F P (arr_ok xs i)"
  by (simp add: only_def arr_ok_run)

lemma only_seqs_last: "only F P m \<Longrightarrow> only F P (seqs [m])"
  by (simp add: only_last)

text \<open>A side condition on the host structure survives register access.\<close>

lemma only_io_bnd:
  assumes "keeps io_free m" and "only F (\<lambda>w. sane b A xs ys w \<and> I (hdata w)) m"
    and "\<And>x. only F (\<lambda>w. sane b A xs ys w \<and> I (hdata w)) (f x)"
  shows "only F (\<lambda>w. sane b A xs ys w \<and> I (hdata w)) (bnd m f)"
proof (rule only_bnd [OF assms(2) _ assms(3)])
  show "hoare (\<lambda>w. sane b A xs ys w \<and> I (hdata w)) m (\<lambda>_ w. sane b A xs ys w \<and> I (hdata w))"
  proof (rule hoareI, elim conjE, rule conjI)
    fix w x w' assume w: "sane b A xs ys w" and i: "I (hdata w)" and m: "m w = Inr (x, w')"
    from keepsD [OF io_free_core [OF assms(1)] m] w show "sane b A xs ys w'" by (rule core_sane)
    show "I (hdata w')" using i unfolding io_free_eqD(1) [OF keepsD [OF assms(1) m]] .
  qed
qed

lemma only_put_out: "i + length vs \<le> 8 \<Longrightarrow> only F (sane b A xs ys) (put_out i vs)"
proof (induction i vs rule: put_out.induct)
  case (2 i v vs)
  have ok: "only F (sane b A xs ys) (peek (\<lambda>w. arr_ok (outgoing_msg (hdata w)) i))"
    by (intro only_peek only_arr_ok) (use "2.prems" in \<open>simp add: arrays_okD(3) [OF sane_arrays]\<close>)
  have k: "keeps core (peek (\<lambda>w. arr_ok (outgoing_msg (hdata w)) i))"
    "keeps core (mod_hd (\<lambda>h. h\<lparr>outgoing_msg := (outgoing_msg h)[i := v]\<rparr>))"
    by (intro fk; simp)+
  show ?case
    unfolding put_out.simps using "2.prems" by (intro only_skip k ok onl "2.IH") simp
qed (simp add: only_ret)

lemma sane_table: "sane b A xs ys w \<Longrightarrow> \<exists>x. calc_sync_xfer p q f (sx_table (hdata w)) = Inr x"
proof -
  assume "sane b A xs ys w"
  from calc_sync_xfer_fields [OF arrays_okD(10) [OF sane_arrays [OF this]], of q f p]
  show ?thesis by (elim exE conjE) (rule exI)
qed

lemma only_small [onl]: "only F P (set_state s)" "only F P (set_outgoing_len n)" "only F P (set_sync_stat t ss)"
  "only F P (negate_ack s)"
  unfolding set_state_def set_outgoing_len_def set_sync_stat_def negate_ack_def
  by (intro onl)+ (simp add: only_def run_simps)

section \<open>Selection\<close>

lemma only_offer_sync: "only F (sane b A xs ys) (offer_sync t)"
  unfolding offer_sync_def
proof (rule only_peek)
  fix w assume w: "sane b A xs ys w"
  let ?send = "\<lambda>(m3, m4). seqs [put_out 1 [EXTENDED_MESSAGE, 3, EXTENDED_SDTR, m3, m4], set_outgoing_len 6]"
  have send: "only F (sane b A xs ys) (?send m)" for m
    by (cases m) (simp only: prod.case seqs.simps, intro only_skip only_last only_put_out onl fk, simp)
  have "1 < length (sx_table (hdata w))" using arrays_okD(9) [OF sane_arrays [OF w]] by simp
  then show "only F (sane b A xs ys) (bnd (if bit_on (ucast (no_sync (hdata w)) :: u32) (push_bit t 1)
          then ret (calc_sync_msg (default_sx_per (hdata w)) 0 0)
          else bnd (arr_get (sx_table (hdata w)) 1) (\<lambda>p.
                 ret (calc_sync_msg (period_ns p) OPTIMUM_SX_OFF (ucast (fast (hdata w)))))) ?send)"
    by (intro only_skip_bnd only_if only_get onl fk send)
qed

lemma only_intr_select:
  assumes s: "\<And>c. s = Some c \<Longrightarrow> ok_addr A c" and F: "s = None \<Longrightarrow> Null_deref \<in> F"
  shows "only F (\<lambda>w. sane True A xs ys w \<and> selecting (hdata w) = s) intr_select"
  unfolding intr_select_def
  by (rule only_peek, elim conjE, rule only_weaken,
      intro only_seqs_last only_seqs only_deref only_put_out only_get only_if only_skip
        only_offer_sync only_unlock onl fk sane_room [OF _ s])
    (use F in simp_all)

context dma_waits begin

lemma only_intr_timeout:
  assumes W: "Waiting \<in> F"
    and ok: "\<And>c. s = Some c \<or> cmd = Some c \<Longrightarrow> ok_addr A c"
    and F: "(if st = S_RUNNING_LEVEL2 then cmd else s) = None \<Longrightarrow> Null_deref \<in> F"
  shows "only F (\<lambda>w. sane True A xs ys w \<and> selecting (hdata w) = s \<and> state (hdata w) = st) (intr_timeout e cmd)"
  unfolding intr_timeout_def
proof (rule only_peek, elim conjE, rule only_weaken)
  fix w assume st: "selecting (hdata w) = s" "state (hdata w) = st"
  let ?rest = "\<lambda>c. seqs [mod_cmd c (\<lambda>k. k\<lparr>result := push_bit 16 (DID_NO_CONNECT e)\<rparr>), clear_busy c,
             mod_hd (\<lambda>h. h\<lparr>state := S_UNCONNECTED\<rparr>), emit (Scsi_done c), spin_unlock, wd33c93_execute e]"
  have rest: "only F (sane True A xs ys) (?rest c)" if "ok_addr A c" for c
    unfolding seqs.simps
    by (intro only_skip only_busy that onl fk only_unlock_then only_last only_execute W) simp_all
  have drop: "keeps core (mod_hd (\<lambda>h. h\<lparr>connected := None\<rparr>))" "keeps core (mod_hd (\<lambda>h. h\<lparr>selecting := None\<rparr>))"
    by (intro fk; simp)+
  show "only F (sane True A xs ys)
     (bnd (if state (hdata w) = S_RUNNING_LEVEL2
          then thn (mod_hd (\<lambda>h. h\<lparr>connected := None\<rparr>)) (ret cmd)
          else thn (mod_hd (\<lambda>h. h\<lparr>selecting := None\<rparr>)) (ret (selecting (hdata w)))) (\<lambda>p. deref p ?rest))"
  proof (cases "st = S_RUNNING_LEVEL2")
    case True
    have "only F (sane True A xs ys) (thn (mod_hd (\<lambda>h. h\<lparr>connected := None\<rparr>)) (deref cmd ?rest))"
      by (intro only_skip drop onl only_deref rest) (use F ok True in simp_all)
    then show ?thesis using True by (simp add: st bnd_thn_ret del: seqs.simps)
  next
    case False
    have "only F (sane True A xs ys) (thn (mod_hd (\<lambda>h. h\<lparr>selecting := None\<rparr>)) (deref s ?rest))"
      by (intro only_skip drop onl only_deref rest) (use F ok False in simp_all)
    then show ?thesis using False by (simp add: st bnd_thn_ret del: seqs.simps)
  qed
qed

end

section \<open>Moving data\<close>

text \<open>While entries remain after the current one, there is a next entry.\<close>

definition sg_next :: "scsi_cmnd \<Rightarrow> bool" where
  "sg_next k \<longleftrightarrow> SCp_buffers_residual k = 0 \<or>
     (case SCp_buffer k of None \<Rightarrow> False | Some i \<Rightarrow> Suc i < length (sglist k))"

lemma pio_move_faults:
  "pio_move d b i w = Inl f \<Longrightarrow> f = Waiting \<or> f = Out_of_bounds \<and> (\<forall>p. b \<noteq> Buf_mem p)"
  by (cases b) (auto simp: pio_move_def pio_load_def pio_store_def run_simps split: if_splits list.splits)

lemma pio_loop_faults:
  "pio_loop d b i w = Inl f \<Longrightarrow> f = Waiting \<or> f = Out_of_bounds \<and> (\<forall>p. b \<noteq> Buf_mem p)"
proof (induction d b i w rule: pio_loop.induct)
  case (1 d b i w)
  show ?case
  proof (cases "wd_in w")
    case Nil
    then show ?thesis using "1.prems" by (subst (asm) pio_loop.simps) (simp add: run_simps)
  next
    case (Cons a as)
    let ?w1 = "w\<lparr>wd_in := as, events := events w @ [Rd_SASR a]\<rparr>"
    have r: "read_aux_stat w = Inr (a, ?w1)" by (simp add: run_simps Cons)
    have p: "(case (if bit_on a ASR_DBR then pio_move d b i ?w1 else Inr ((), ?w1)) of
             Inl f \<Rightarrow> Inl f
           | Inr (_, w2) \<Rightarrow>
               if bit_on a ASR_INT then Inr ((), w2)
               else pio_loop d b (if bit_on a ASR_DBR then Suc i else i) w2) = Inl f"
      using "1.prems" by (subst (asm) pio_loop.simps) (simp add: r)
    show ?thesis
    proof (cases "if bit_on a ASR_DBR then pio_move d b i ?w1 else Inr ((), ?w1)")
      case (Inl g)
      then show ?thesis using p pio_move_faults by (auto split: if_splits)
    next
      case (Inr q)
      then show ?thesis using p "1.IH" [OF r refl Inr] by (cases q) (auto split: if_splits)
    qed
  qed
qed

lemma only_transfer_pio:
  assumes "Waiting \<in> F" and "\<forall>p. b \<noteq> Buf_mem p \<Longrightarrow> Out_of_bounds \<in> F"
  shows "only F P (transfer_pio b n d)"
  unfolding only_def
proof (intro allI impI)
  fix w f assume "transfer_pio b n d w = Inl f"
  then obtain w' where "pio_loop (d \<noteq> 0) b 0 w' = Inl f"
    by (auto simp: transfer_pio_def write_wd33c93_count_def wr_SASR_def wr_SCMD_def run_simps split: sum.splits)
  from pio_loop_faults [OF this] assms show "f \<in> F" by auto
qed

lemma only_update_residual: "Waiting \<in> F \<Longrightarrow> only F (sane b A xs ys) (update_residual c)"
  unfolding update_residual_def by (intro only_skip_bnd onl fk)

lemma only_bytes:
  assumes "Waiting \<in> F"
  shows "only F (sane b A xs ys) (pio_bytes c d)" "only F (sane b A xs ys) (dma_bytes c)"
proof -
  show "only F (sane b A xs ys) (pio_bytes c d)"
    unfolding pio_bytes_def
    by (intro only_peek only_seqs_last only_seqs only_update_residual only_transfer_pio onl fk assms) simp_all
  show "only F (sane b A xs ys) (dma_bytes c)"
    unfolding dma_bytes_def
    by (intro only_peek only_skip only_seqs_last only_seqs only_if onl fk) simp_all
qed

context dma_waits begin

lemma only_transfer_bytes:
  assumes W: "Waiting \<in> F" and ok: "ok_addr A c"
  shows "only F (\<lambda>w. sane b A xs ys w \<and> sg_next (cmds w c)) (transfer_bytes e c d)"
  unfolding transfer_bytes_def
proof (rule only_thn)
  let ?adv = "peek (\<lambda>w. when_do (SCp_this_residual (cmds w c) = 0 \<and> SCp_buffers_residual (cmds w c) \<noteq> 0) (next_sg c))"
  show "only F (\<lambda>w. sane b A xs ys w \<and> sg_next (cmds w c)) ?adv"
    by (auto simp: only_def run_simps next_sg_def sg_next_def split: option.splits if_splits)
  have k: "keeps core ?adv" by (intro fk)
  show "hoare (\<lambda>w. sane b A xs ys w \<and> sg_next (cmds w c)) ?adv (\<lambda>_. sane b A xs ys)"
    using sane_keeps [OF k] by (auto simp: hoare_def)
  show "only F (sane b A xs ys) (peek (\<lambda>w. if SCp_this_residual (cmds w c) = 0 then ret () else
         bnd (arr_get (sync_xfer (hdata w)) (id_of w c)) (\<lambda>s.
         thn (write_wd33c93 WD_SYNCHRONOUS_TRANSFER s)
        (bnd (if no_dma (hdata w) \<noteq> 0 then ret 1 else dma_setup e c d) (\<lambda>use_pio.
           if use_pio \<noteq> 0 then pio_bytes c d else dma_bytes c)))))"
    by (intro only_peek only_if only_get only_skip only_skip_bnd only_bytes only_dma core_dma
        sane_room [OF _ ok] onl fk W)
qed

lemma core_transfer_bytes: "keeps core (transfer_bytes e c d)"
  unfolding transfer_bytes_def by (intro fk core_dma)

lemma only_intr_data:
  assumes W: "Waiting \<in> F" and ok: "\<And>c. cmd = Some c \<Longrightarrow> ok_addr A c" and F: "cmd = None \<Longrightarrow> Null_deref \<in> F"
  shows "only F (\<lambda>w. sane True A xs ys w \<and> (\<forall>c. cmd = Some c \<longrightarrow> sg_next (cmds w c))) (intr_data e cmd d)"
proof -
  let ?m = "deref cmd (\<lambda>c. transfer_bytes e c d)"
  have "only F (\<lambda>w. sane True A xs ys w \<and> (\<forall>c. cmd = Some c \<longrightarrow> sg_next (cmds w c))) ?m"
    by (intro only_deref F only_pre [OF only_transfer_bytes [OF W ok, where b = True and xs = xs and ys = ys]]) simp_all
  moreover have "keeps core ?m" by (intro fk core_transfer_bytes)
  then have "hoare (\<lambda>w. sane True A xs ys w \<and> (\<forall>c. cmd = Some c \<longrightarrow> sg_next (cmds w c))) ?m (\<lambda>_. sane True A xs ys)"
    using sane_keeps [of ?m True A xs ys] by (auto simp: hoare_def)
  ultimately show ?thesis
    unfolding intr_data_def seqs.simps(2) [of "deref _ _"]
    by (rule only_thn) (intro only_seqs_last only_seqs only_peek only_when only_unlock onl fk)
qed

end

lemma only_intr_command:
  assumes "Waiting \<in> F" and "Out_of_bounds \<in> F" and "cmd = None \<Longrightarrow> Null_deref \<in> F"
  shows "only F (sane True A xs ys) (intr_command cmd)"
  unfolding intr_command_def
  by (intro only_seqs_last only_seqs only_deref only_peek only_transfer_pio only_unlock onl fk assms)

lemma only_intr_status:
  assumes W: "Waiting \<in> F" and F: "cmd = None \<Longrightarrow> Null_deref \<in> F"
  shows "only F (sane True A xs ys) (intr_status cmd)"
  unfolding intr_status_def
  by (intro only_skip_bnd only_deref only_seqs_last only_seqs only_peek only_if only_unlock onl fk W F) simp_all

lemma only_intr_sdp: "only F (sane True A xs ys) intr_sdp"
  unfolding intr_sdp_def by (intro only_seqs_last only_seqs only_unlock onl fk)

lemma only_intr_mess_out:
  assumes "Waiting \<in> F" and "Out_of_bounds \<in> F"
  shows "only F (sane True A xs ys) intr_mess_out"
  unfolding intr_mess_out_def
  by (intro only_seqs_last only_seqs only_peek only_when only_skip only_put_out only_transfer_pio only_unlock onl fk assms) simp_all

section \<open>Messages\<close>

lemma only_answers: "only F (sane b A xs ys) msg_restore" "only F (sane b A xs ys) answer_async"
  "only F (sane b A xs ys) ext_wdtr" "only F (sane b A xs ys) reject_msg"
proof -
  show "only F (sane b A xs ys) msg_restore"
    unfolding msg_restore_def by (intro only_peek only_if only_seqs_last only_seqs onl fk)
  show "only F (sane b A xs ys) answer_async"
    unfolding answer_async_def
    by (rule only_peek, simp only: prod.case_eq_if, intro only_seqs_last only_seqs only_put_out onl fk) simp
  show "only F (sane b A xs ys) ext_wdtr"
    unfolding ext_wdtr_def by (intro only_seqs_last only_seqs only_put_out onl fk) simp
  show "only F (sane b A xs ys) reject_msg"
    unfolding reject_msg_def by (intro only_seqs_last only_seqs only_put_out onl fk) simp
qed

text \<open>A computation of a register value on the period table at hand.\<close>

lemma only_calc:
  assumes "sane b A xs ys w" and "\<And>x. only F P (f x)"
  shows "only F P (bnd (lift (calc_sync_xfer p q i (sx_table (hdata w)))) f)"
  using sane_table [OF assms(1), of p q i] assms(2) only_lift by metis

lemma only_msg_reject:
  assumes "ok_addr A c"
  shows "only F (sane b A xs ys) (msg_reject c)"
  unfolding msg_reject_def
  by (intro only_peek only_skip only_get only_when only_seqs_last only_seqs only_calc only_ok onl fk
      sane_room [OF _ assms]) simp_all

lemma only_calc_plain: "sane b A xs ys w \<Longrightarrow> only F P (lift (calc_sync_xfer p q i (sx_table (hdata w))))"
  using sane_table [of b A xs ys w p q i] by (auto simp: only_def lift_def)

lemma only_ext_sdtr:
  assumes ok: "ok_addr A c"
  shows "only F (sane b A xs ys) (ext_sdtr c)"
  unfolding ext_sdtr_def Let_def
  by (intro only_peek only_calc only_get only_skip_bnd only_skip only_if only_answers only_ok only_seqs_last only_seqs
      only_calc_plain onl fk sane_room [OF _ ok]) (simp_all add: arrays_okD(2) [OF sane_arrays])

lemma only_msg_extended:
  assumes ok: "ok_addr A c"
  shows "only F (sane b A xs ys) (msg_extended c)"
  unfolding msg_extended_def Let_def
  by (intro only_peek only_skip_bnd only_if only_get only_skip only_ext_sdtr only_answers onl fk ok)
    (simp_all add: arrays_okD(2) [OF sane_arrays])

lemma only_handle_msg:
  assumes ok: "ok_addr A c"
  shows "only F (sane b A xs ys) (handle_msg c m)"
  unfolding handle_msg_def
  by (intro only_if only_peek only_skip only_answers only_msg_reject only_msg_extended onl fk ok) simp_all

lemma only_store_msg:
  assumes "8 \<le> n \<Longrightarrow> Out_of_bounds \<in> F"
  shows "only F (\<lambda>w. sane b A xs ys w \<and> incoming_ptr (hdata w) = n) (store_msg m)"
  unfolding store_msg_def
proof (rule only_peek, elim conjE)
  fix w assume w: "sane b A xs ys w" "incoming_ptr (hdata w) = n"
  show "only F (\<lambda>w. sane b A xs ys w \<and> incoming_ptr (hdata w) = n)
    (thn (arr_ok (incoming_msg (hdata w)) (incoming_ptr (hdata w)))
    (thn (mod_hd (\<lambda>h. h\<lparr>incoming_msg := (incoming_msg h)[incoming_ptr h := m]\<rparr>))
    (peek (\<lambda>w. bnd (arr_get (incoming_msg (hdata w)) 0) (\<lambda>m0.
       if m0 = EXTENDED_MESSAGE then ret EXTENDED_MESSAGE
       else thn (mod_hd (\<lambda>h. h\<lparr>incoming_ptr := 0\<rparr>)) (ret m))))))"
  proof (cases "n < 8")
    case True
    show ?thesis
      by (rule only_ok, simp add: True w arrays_okD(2) [OF sane_arrays [OF w(1)]], rule only_weaken)
        (intro only_skip only_peek only_get only_if onl fk; simp add: arrays_okD(2) [OF sane_arrays])
  next
    case False
    then show ?thesis using w assms arrays_okD(2) [OF sane_arrays [OF w(1)]]
      by (simp add: only_def thn_run arr_ok_run)
  qed
qed

lemma only_intr_mess_in:
  assumes W: "Waiting \<in> F" and F: "cmd = None \<Longrightarrow> Null_deref \<in> F" and O: "8 \<le> n \<Longrightarrow> Out_of_bounds \<in> F"
    and ok: "\<And>c. cmd = Some c \<Longrightarrow> ok_addr A c"
  shows "only F (\<lambda>w. sane True A xs ys w \<and> incoming_ptr (hdata w) = n) (intr_mess_in cmd)"
proof -
  have rest: "only F (sane True A xs ys) (deref cmd (\<lambda>c.
       seqs [mod_cmd c (\<lambda>k. k\<lparr>SCp_Message := ucast msg\<rparr>), handle_msg c msg, spin_unlock]))" for msg
    by (intro only_deref F only_seqs_last only_seqs only_handle_msg ok only_unlock onl fk) simp_all
  have "hoare (\<lambda>w. sane True A xs ys w \<and> incoming_ptr (hdata w) = n) (store_msg m) (\<lambda>_. sane True A xs ys)" for m
    using sane_keeps [of "store_msg m" True A xs ys] core_messages(7) [of m] by (auto simp: hoare_def)
  then have st: "only F (\<lambda>w. sane True A xs ys w \<and> incoming_ptr (hdata w) = n) (bnd (store_msg m) (\<lambda>msg. deref cmd (\<lambda>c.
       seqs [mod_cmd c (\<lambda>k. k\<lparr>SCp_Message := ucast msg\<rparr>), handle_msg c msg, spin_unlock])))" for m
    using only_store_msg [OF O] rest by (intro only_bnd)
  note io = only_io_bnd [where I = "\<lambda>h. incoming_ptr h = n"]
  show ?thesis
    unfolding intr_mess_in_def
    by (rule io [OF keeps_read_1_byte only_read_1_byte [OF W]], rule io [OF keeps_read_wd33c93 only_rd(4) [OF W]], rule st)
qed

section \<open>Completion and disconnection\<close>

lemma only_drop_connected: "ok_addr A c \<Longrightarrow> only F (sane b A xs ys) (drop_connected c)"
  unfolding drop_connected_def by (intro only_seqs_last only_seqs only_busy onl fk) simp_all

lemma only_set_result: "only F (sane b A xs ys) (set_result e c)"
  unfolding set_result_def
  by (intro only_peek only_get only_if only_seqs_last only_seqs onl fk arrays_okD(11) [OF sane_arrays]) simp_all

context dma_waits begin

lemma only_intr_sel_xfer_done:
  assumes W: "Waiting \<in> F" and ok: "\<And>c. cmd = Some c \<Longrightarrow> ok_addr A c"
    and F: "phs = 0x60 \<Longrightarrow> cmd = None \<Longrightarrow> Null_deref \<in> F"
  shows "only F (sane True A xs ys) (intr_sel_xfer_done e cmd phs)"
  unfolding intr_sel_xfer_done_def seqs.simps
  by (intro only_last only_unlock_then only_execute only_skip only_if only_deref F only_skip_bnd only_drop_connected only_set_result
      only_unlock onl fk W ok) simp_all

lemma only_intr_unexp_disc:
  assumes W: "Waiting \<in> F" and ok: "\<And>c. cmd = Some c \<Longrightarrow> ok_addr A c"
  shows "only F (sane True A xs ys) (intr_unexp_disc e cmd)"
  unfolding intr_unexp_disc_def seqs.simps
  by (intro only_last only_unlock_then only_execute only_skip only_option only_drop_connected only_set_result
      only_unlock onl fk W ok)

end

lemma push_frame: "lock (hdata (push_q disconnected_Q disconnected_Q_update c w)) = lock (hdata w)"
  "lock (hdata (push_q input_Q input_Q_update c w)) = lock (hdata w)"
  "arrays_ok (push_q disconnected_Q disconnected_Q_update c w) = arrays_ok w"
  "arrays_ok (push_q input_Q input_Q_update c w) = arrays_ok w"
  by (simp_all add: push_q_def) (rule arrays_frame; simp add: wf_host_def)+

lemma sane_push:
  assumes "c \<notin> set xs" and "c \<notin> set ys"
  shows "hoare (sane b A xs ys) (modify (push_q disconnected_Q disconnected_Q_update c)) (\<lambda>_. sane b A xs (c # ys))"
    and "ok_addr A c \<Longrightarrow> hoare (sane b A xs ys) (modify (push_q input_Q input_Q_update c)) (\<lambda>_. sane b A (c # xs) ys)"
proof -
  show "hoare (sane b A xs ys) (modify (push_q disconnected_Q disconnected_Q_update c)) (\<lambda>_. sane b A xs (c # ys))"
    by (rule hoare_modify) (use assms in \<open>auto simp: sane_def push_frame dq.push dq.push_other\<close>)
  show "hoare (sane b A xs ys) (modify (push_q input_Q input_Q_update c)) (\<lambda>_. sane b A (c # xs) ys)" if "ok_addr A c"
    by (rule hoare_modify) (use assms that in \<open>auto simp: sane_def push_frame iq.push iq.push_other\<close>)
qed

lemma only_park:
  assumes ok: "ok_addr A c" and fresh: "c \<notin> set xs" "c \<notin> set ys"
  shows "only F (sane b A xs ys) (park c)" and "hoare (sane b A xs ys) (park c) (\<lambda>_. sane b A xs (c # ys))"
proof -
  let ?n = "seqs [mod_hd (\<lambda>h. h\<lparr>connected := None\<rparr>), set_state S_UNCONNECTED,
           peek (\<lambda>w. bnd (arr_get (disc_done_cnt (hdata w)) (id_of w c)) (\<lambda>n.
             mod_hd (\<lambda>h. h\<lparr>disc_done_cnt := (disc_done_cnt h)[id_of w c := n + 1]\<rparr>)))]"
  have p: "park c = thn (modify (push_q disconnected_Q disconnected_Q_update c)) ?n"
    by (simp add: park_def)
  have "only F (sane b A xs (c # ys)) ?n"
    by (intro only_seqs_last only_seqs only_peek only_get onl fk sane_room [OF _ ok]) simp_all
  then show "only F (sane b A xs ys) (park c)"
    unfolding p by (rule only_thn [OF only_modify sane_push(1) [OF fresh]])
  have "keeps core ?n" by (intro fk) simp_all
  then show "hoare (sane b A xs ys) (park c) (\<lambda>_. sane b A xs (c # ys))"
    unfolding p by (rule hoare_thn [OF sane_push(1) [OF fresh] sane_keeps])
qed

context dma_waits begin

text \<open>Whatever the state, the disconnect handling ends in a sane state.\<close>

lemma only_intr_disc:
  assumes W: "Waiting \<in> F" and ok: "\<And>c. cmd = Some c \<Longrightarrow> ok_addr A c \<and> c \<notin> set xs \<and> c \<notin> set ys"
  shows "only F (sane True A xs ys) (intr_disc e cmd)"
proof -
  let ?S = "\<lambda>w. \<exists>ys. sane True A xs ys w"
  let ?body = "\<lambda>w. case state (hdata w) of
               S_PRE_CMP_DISC \<Rightarrow> deref cmd (\<lambda>c. seqs [drop_connected c, set_result e c, emit (Scsi_done c)])
             | S_PRE_TMP_DISC \<Rightarrow> deref cmd park
             | S_RUNNING_LEVEL2 \<Rightarrow> deref cmd park
             | _ \<Rightarrow> set_state S_UNCONNECTED"
  let ?P = "\<lambda>w. sane True A xs ys w \<and> (cmd = None \<longrightarrow> state (hdata w) = S_UNCONNECTED)"
  have o: "only F ?P (peek ?body)"
  proof (rule only_peek, elim conjE, rule only_weaken)
    fix w assume "cmd = None \<longrightarrow> state (hdata w) = S_UNCONNECTED"
    then show "only F (sane True A xs ys) (?body w)"
      by (cases "state (hdata w)"; cases cmd)
        (simp_all add: onl only_park ok only_last only_skip only_drop_connected only_set_result fk)
  qed
  have h: "hoare ?P (peek ?body) (\<lambda>_. ?S)"
  proof (rule hoareI, elim conjE)
    fix w x w' assume w: "sane True A xs ys w" and n: "cmd = None \<longrightarrow> state (hdata w) = S_UNCONNECTED"
      and m: "peek ?body w = Inr (x, w')"
    have "hoare (sane True A xs ys) (?body w) (\<lambda>_. ?S)"
    proof (cases "cmd \<noteq> None \<and> (state (hdata w) = S_PRE_TMP_DISC \<or> state (hdata w) = S_RUNNING_LEVEL2)")
      case True
      then obtain c where "cmd = Some c" by auto
      then show ?thesis
        using True only_park(2) [of A c xs ys True] ok by (fastforce simp: hoare_def)
    next
      case False
      then have "keeps core (?body w)"
        using n by (cases "state (hdata w)"; cases cmd; auto intro!: fk)
      from sane_keeps [OF this, of True A xs ys] show ?thesis by (auto simp: hoare_def)
    qed
    then show "?S w'" using hoareD m w by (fastforce simp: peek_run)
  qed
  have tail: "only F ?S (seqs [spin_unlock, wd33c93_execute e])"
    unfolding only_def using onlyD [OF only_last [OF only_tail [OF W]]] by (auto simp: thn_assoc)
  have start: "only F (sane True A xs ys) (when_do (cmd = None) (set_state S_UNCONNECTED))"
    "hoare (sane True A xs ys) (when_do (cmd = None) (set_state S_UNCONNECTED)) (\<lambda>_. ?P)"
  proof -
    show "only F (sane True A xs ys) (when_do (cmd = None) (set_state S_UNCONNECTED))"
      by (intro only_when onl)
    have "hoare (sane True A xs ys) (when_do (cmd = None) (set_state S_UNCONNECTED)) (\<lambda>_. sane True A xs ys)"
      by (rule sane_keeps) (intro fk)
    then show "hoare (sane True A xs ys) (when_do (cmd = None) (set_state S_UNCONNECTED)) (\<lambda>_. ?P)"
      by (auto simp: hoare_def set_state_def run_simps split: if_splits)
  qed
  have id: "keeps core (write_wd33c93 WD_SOURCE_ID SRCID_ER)" by (intro fk)
  show ?thesis
    unfolding intr_disc_def seqs.simps(2) [of "write_wd33c93 _ _"] seqs.simps(2) [of "when_do _ _"] seqs.simps(2) [of "peek _"]
    by (rule only_skip [OF id only_wr(1)], rule only_thn [OF start], rule only_thn [OF o h tail])
qed

end

section \<open>Reselection\<close>

lemma only_resel_lun [onl]: "Waiting \<in> F \<Longrightarrow> only F (sane b A xs ys) (resel_lun asr sr)"
  unfolding resel_lun_def resel_lun_old_def
  by (intro only_if only_skip_bnd only_peek only_skip only_when onl fk)

lemma sane_unlink_dis:
  assumes "sane b A xs (l @ c # r) w"
  shows "sane b A xs (l @ r) (unlink_q disconnected_Q_update (last_opt l) c w)"
proof -
  let ?w = "unlink_q disconnected_Q_update (last_opt l) c w"
  have q: "queue_of disconnected_Q w (l @ c # r)" "queue_of input_Q w xs" "set l \<inter> set xs = {}"
    using assms by (auto simp: sane_def)
  show ?thesis
    unfolding sane_def unlink_frame addr_of_unlink
    using assms dq.unlink [OF q(1)] dq.unlink_other [OF q(2,3)] unfolding sane_def by (intro conjI) auto
qed

lemma only_reconnect: "only F (sane True A xs ys) (reconnect src lun)"
  unfolding reconnect_def
proof (rule only_peek)
  fix w assume w: "sane True A xs ys w"
  have l: "linked (next_of w) (disconnected_Q (hdata w)) ys" using w by (simp add: sane_def queue_of_def)
  obtain prev cur where r: "search (resel_match w src lun) (next_of w) (disconnected_Q (hdata w)) = Inr (prev, cur)"
    using search_total [of "next_of w" _ ys "resel_match w src lun", OF l resel_match_def] by (metis surj_pair)
  let ?tail = "\<lambda>patch c. seqs [modify (unlink_q disconnected_Q_update patch c), mod_hd (\<lambda>h. h\<lparr>connected := Some c\<rparr>),
        resume c, spin_unlock]"
  have "only F (sane True A xs ys) (case cur of None \<Rightarrow> spin_unlock | Some c \<Rightarrow> ?tail prev c)"
  proof (rule search_linkedE [OF r l resel_match_def])
    assume "cur = None"
    then show ?thesis by (simp add: only_unlock)
  next
    fix c ls rs
    assume found: "cur = Some c" "ys = ls @ c # rs" "prev = last_opt ls"
    have "hoare (sane True A xs ys) (modify (unlink_q disconnected_Q_update (last_opt ls) c)) (\<lambda>_. sane True A xs (ls @ rs))"
      unfolding found(2) by (rule hoare_modify) (rule sane_unlink_dis)
    moreover have res: "only F (sane True A xs (ls @ rs)) (resume c)"
      unfolding resume_def by (intro only_seqs_last only_seqs only_peek only_if onl fk)
    have "only F (sane True A xs (ls @ rs)) (seqs [mod_hd (\<lambda>h. h\<lparr>connected := Some c\<rparr>), resume c, spin_unlock])"
      by (intro only_seqs_last only_seqs res only_unlock onl fk) simp_all
    ultimately have "only F (sane True A xs ys) (?tail prev c)"
      unfolding seqs.simps(2) [of "modify _"] found(3) by (rule only_thn [OF only_modify])
    then show ?thesis by (simp add: found(1) del: seqs.simps)
  qed
  then show "only F (sane True A xs ys) (bnd (lift (search (resel_match w src lun) (next_of w) (disconnected_Q (hdata w))))
      (\<lambda>(patch, found). case found of None \<Rightarrow> spin_unlock | Some c \<Rightarrow> ?tail patch c))"
    by (intro only_lift [OF r]) (simp del: seqs.simps)
qed

lemma requeue_faults:
  assumes ok: "ok_addr A c" and fresh: "c \<notin> set xs" "c \<notin> set ys"
  shows "only F (sane b A xs ys) (requeue c)" "hoare (sane b A xs ys) (requeue c) (\<lambda>_. sane b A (c # xs) ys)"
  unfolding requeue_def
  by (intro only_skip core_busy only_busy ok onl)
    (rule hoare_thn [OF sane_keeps [OF core_busy(2)] sane_push(2) [OF fresh ok]])

lemma only_intr_resel:
  assumes W: "Waiting \<in> F" and ok: "\<And>c. s = Some c \<or> cmd = Some c \<Longrightarrow> ok_addr A c \<and> c \<notin> set xs \<and> c \<notin> set ys"
    and H: "\<not> l \<le> L2_NONE \<Longrightarrow> cmd \<noteq> None \<Longrightarrow> phs \<noteq> 0 \<Longrightarrow> Hang \<in> F"
  shows "only F (\<lambda>w. sane True A xs ys w \<and> selecting (hdata w) = s \<and> level2 (hdata w) = l) (intr_resel cmd asr sr phs)"
proof -
  let ?P = "\<lambda>w. sane True A xs ys w \<and> selecting (hdata w) = s \<and> level2 (hdata w) = l"
  let ?S = "\<lambda>w. \<exists>xs. sane True A xs ys w"
  let ?sel = "\<lambda>c. thn (mod_hd (\<lambda>h. h\<lparr>selecting := None\<rparr>)) (requeue c)"
  let ?c = "if l \<le> L2_NONE then (case s of None \<Rightarrow> ret () | Some c \<Rightarrow> ?sel c)
     else (case cmd of None \<Rightarrow> ret () | Some c \<Rightarrow> if phs = 0x00 then requeue c else throw Hang)"
  have drop: "keeps core (mod_hd (\<lambda>h. h\<lparr>selecting := None\<rparr>))" by (intro fk) simp_all
  have run: "resel_conflict cmd phs w = ?c w" if "?P w" for w
    using that by (simp add: resel_conflict_def peek_run)
  have sel: "only F (sane True A xs ys) (?sel c)" "hoare (sane True A xs ys) (?sel c) (\<lambda>_. sane True A (c # xs) ys)"
    if "s = Some c" for c
    using that ok by (intro only_skip drop onl requeue_faults; simp)
      (rule hoare_thn [OF sane_keeps [OF drop]], rule requeue_faults(2), use that ok in auto)
  have o: "only F ?P (resel_conflict cmd phs)"
  proof -
    have "only F (sane True A xs ys) ?c"
      using sel ok H requeue_faults(1)
      by (intro only_if only_option onl only_throw) auto
    then show ?thesis using run unfolding only_def by metis
  qed
  have h: "hoare ?P (resel_conflict cmd phs) (\<lambda>_. ?S)"
  proof -
    have "hoare (sane True A xs ys) ?c (\<lambda>_. ?S)"
      using sel(2) ok requeue_faults(2) [where b = True]
      by (cases s; cases cmd) (auto simp: hoare_def ret_run throw_run, fastforce+)
    then show ?thesis using run unfolding hoare_def by metis
  qed
  have rest: "only F (sane True A xs ys) (bnd (read_wd33c93 WD_SOURCE_ID) (\<lambda>src.
     bnd (resel_lun asr sr) (\<lambda>lun. reconnect (src AND SRCID_MASK) lun)))" for xs
    by (intro only_skip_bnd only_reconnect onl fk W)
  show ?thesis
    unfolding intr_resel_def
    by (rule only_thn [OF o h]) (use rest in \<open>auto simp: only_def\<close>)
qed

section \<open>The handler\<close>

text \<open>
  The ways in which the chip's report can fail to fit: NULL is dereferenced when a phase or a
  completion is reported while no command is connected (or selected); an array is left when the
  target sends more message bytes than \<open>incoming_msg\<close> holds, or the chip asks for more command or
  message bytes than it was told to expect; the endless loop is entered when a reselection
  interrupts a command that had got further than arbitration.
\<close>

definition unfit :: "hostdata \<Rightarrow> u8 \<Rightarrow> u8 \<Rightarrow> fault \<Rightarrow> bool" where
  "unfit h sr phs f \<longleftrightarrow> (case f of
       Null_deref \<Rightarrow>
         connected h = None \<and>
           (dma h = D_DMA_RUNNING \<or> phase_int sr PHS_DATA_IN \<or> phase_int sr PHS_DATA_OUT \<or>
            phase_int sr PHS_COMMAND \<or> phase_int sr PHS_STATUS \<or> phase_int sr PHS_MESS_IN \<or>
            sr = CSR_SEL_XFER_DONE \<and> phs = 0x60 \<or> sr = CSR_TIMEOUT \<and> state h = S_RUNNING_LEVEL2) \<or>
         selecting h = None \<and> (sr = CSR_SELECT \<or> sr = CSR_TIMEOUT \<and> state h \<noteq> S_RUNNING_LEVEL2)
     | Out_of_bounds \<Rightarrow>
         phase_int sr PHS_COMMAND \<or> phase_int sr PHS_MESS_OUT \<or> phase_int sr PHS_MESS_IN \<and> 8 \<le> incoming_ptr h
     | Hang \<Rightarrow>
         (sr = CSR_RESEL \<or> sr = CSR_RESEL_AM) \<and> L2_NONE < level2 h \<and> connected h \<noteq> None \<and> phs \<noteq> 0
     | _ \<Rightarrow> False)"

definition may_fail :: "hostdata \<Rightarrow> u8 \<Rightarrow> u8 \<Rightarrow> fault set" where
  "may_fail h sr phs = {f. f = Waiting \<or> unfit h sr phs f}"

text \<open>What the dispatcher looks at in the host structure.\<close>

definition seen :: "hostdata \<Rightarrow> cptr option \<times> cptr option \<times> run_state \<times> u8 \<times> nat" where
  "seen h = (connected h, selecting h, state h, level2 h, incoming_ptr h)"

context dma_waits begin

lemma only_dispatch:
  assumes con: "connected h = cmd"
    and ok: "\<And>c. selecting h = Some c \<or> cmd = Some c \<Longrightarrow> ok_addr A c \<and> c \<notin> set xs \<and> c \<notin> set ys"
  shows "only (may_fail h sr phs) (\<lambda>w. sane True A xs ys w \<and> seen (hdata w) = seen h \<and>
     (\<forall>c. cmd = Some c \<longrightarrow> sg_next (cmds w c))) (intr_dispatch e asr sr phs cmd)"
proof -
  let ?F = "may_fail h sr phs"
  let ?P = "\<lambda>w. sane True A xs ys w \<and> seen (hdata w) = seen h \<and> (\<forall>c. cmd = Some c \<longrightarrow> sg_next (cmds w c))"
  have W: "Waiting \<in> ?F" by (simp add: may_fail_def)
  have [simp]: "unfit h sr phs Null_deref \<Longrightarrow> Null_deref \<in> ?F" "unfit h sr phs Out_of_bounds \<Longrightarrow> Out_of_bounds \<in> ?F"
    "unfit h sr phs Hang \<Longrightarrow> Hang \<in> ?F" by (simp_all add: may_fail_def)
  have s: "only ?F ?P m" if "only ?F (sane True A xs ys) m" for m :: "unit drv"
    using that by (auto simp: only_def)
  show ?thesis
    unfolding intr_dispatch_def
  proof (intro only_if)
    assume "sr = CSR_TIMEOUT"
    then show "only ?F ?P (intr_timeout e cmd)"
      by (intro only_pre [OF only_intr_timeout [OF W, where s = "selecting h" and st = "state h" and cmd = cmd and xs = xs and ys = ys and A = A]])
        (use ok con in \<open>auto simp: unfit_def seen_def may_fail_def split: if_splits\<close>)
  next
    assume "sr = CSR_SELECT"
    then show "only ?F ?P intr_select"
      by (intro only_pre [OF only_intr_select [where s = "selecting h" and xs = xs and ys = ys and A = A]])
        (use ok in \<open>auto simp: unfit_def seen_def may_fail_def\<close>)
  next
    assume "phase_int sr PHS_DATA_IN"
    then show "only ?F ?P (intr_data e cmd DATA_IN_DIR)"
      by (intro only_pre [OF only_intr_data [OF W, where cmd = cmd and xs = xs and ys = ys and A = A]])
        (use ok con in \<open>auto simp: unfit_def seen_def\<close>)
  next
    assume "phase_int sr PHS_DATA_OUT"
    then show "only ?F ?P (intr_data e cmd DATA_OUT_DIR)"
      by (intro only_pre [OF only_intr_data [OF W, where cmd = cmd and xs = xs and ys = ys and A = A]])
        (use ok con in \<open>auto simp: unfit_def seen_def\<close>)
  next
    assume "phase_int sr PHS_COMMAND"
    then show "only ?F ?P (intr_command cmd)"
      by (intro s only_intr_command W) (use con in \<open>auto simp: unfit_def\<close>)
  next
    assume "phase_int sr PHS_STATUS"
    then show "only ?F ?P (intr_status cmd)"
      by (intro s only_intr_status W) (use con in \<open>auto simp: unfit_def\<close>)
  next
    assume "phase_int sr PHS_MESS_IN"
    then show "only ?F ?P (intr_mess_in cmd)"
      by (intro only_pre [OF only_intr_mess_in [OF W, where cmd = cmd and n = "incoming_ptr h" and xs = xs and ys = ys and A = A]])
        (use ok con in \<open>auto simp: unfit_def seen_def\<close>)
  next
    assume "sr = CSR_SEL_XFER_DONE"
    then show "only ?F ?P (intr_sel_xfer_done e cmd phs)"
      by (intro s only_intr_sel_xfer_done W) (use ok con in \<open>auto simp: unfit_def may_fail_def\<close>)
  next
    show "only ?F ?P intr_sdp" by (intro s only_intr_sdp)
  next
    assume "phase_int sr PHS_MESS_OUT"
    then show "only ?F ?P intr_mess_out"
      by (intro s only_intr_mess_out W) (auto simp: unfit_def)
  next
    show "only ?F ?P (intr_unexp_disc e cmd)"
      by (intro s only_intr_unexp_disc W) (use ok in auto)
  next
    show "only ?F ?P (intr_disc e cmd)"
      by (intro s only_intr_disc W) (use ok in auto)
  next
    assume "sr = CSR_RESEL_AM \<or> sr = CSR_RESEL"
    then show "only ?F ?P (intr_resel cmd asr sr phs)"
      by (intro only_pre [OF only_intr_resel [OF W, where s = "selecting h" and l = "level2 h" and cmd = cmd and xs = xs and ys = ys and A = A]])
        (use ok con in \<open>auto simp: unfit_def seen_def may_fail_def not_le\<close>)
  next
    show "only ?F ?P spin_unlock" by (intro s only_unlock)
  qed
qed

text \<open>The entry of the handler: what it has read, and what is left when the dispatcher starts.\<close>

lemma keeps_stop_seen: "keeps (\<lambda>w. seen (hdata w)) (stop_transfer e cmd)"
proof -
  have "seen (hdata (dma_free w)) = seen (hdata w)" for w by (simp add: dma_free_def seen_def)
  then have 1: "keeps (\<lambda>w. seen (hdata w)) (dma_stop e p 1)" for p
    using stop_free [of p 1] unfolding keeps_def by metis
  have 2: "keeps (\<lambda>w. seen (hdata w)) (update_residual c)" for c
    unfolding update_residual_def
    by (intro keeps_bnd keeps_comp [OF keeps_comp [OF keeps_read_count], of "\<lambda>w. seen (hdata w)" "\<lambda>x. x", simplified io_free_sel]
        keeps_mod_cmd) simp_all
  show ?thesis
    unfolding stop_transfer_def
    by (intro keeps_peek keeps_when keeps_deref keeps_seqs_Cons keeps_seqs_Nil 1 2 keeps_mod_hd) (simp add: seen_def)
qed

lemma only_stop_transfer:
  assumes "Waiting \<in> F" and "cmd = None \<Longrightarrow> d = D_DMA_RUNNING \<Longrightarrow> Null_deref \<in> F"
  shows "only F (\<lambda>w. sane b A xs ys w \<and> dma (hdata w) = d) (stop_transfer e cmd)"
  unfolding stop_transfer_def
  by (rule only_peek, elim conjE, rule only_weaken,
      intro only_when only_deref only_seqs_last only_seqs only_dma core_dma only_update_residual onl fk assms)
    (use assms in simp_all)

lemma core_stop_transfer: "keeps core (stop_transfer e cmd)"
  unfolding stop_transfer_def by (intro fk core_dma) simp_all

lemma keeps_stop_sg: "keeps (\<lambda>w. sg_next (cmds w c)) (stop_transfer e cmd)"
proof -
  have "keeps (\<lambda>w. sg_next (cmds w c)) (dma_stop e p 1)" for p
    using stop_free [of p 1] dma_free_hd(4) unfolding keeps_def by metis
  moreover have "keeps (\<lambda>w. sg_next (cmds w c)) (update_residual c')" for c'
  proof -
    have "keeps (\<lambda>w. sg_next (cmds w c)) read_wd33c93_count"
      using keeps_read_count io_free_eqD(2) unfolding keeps_def by metis
    then show ?thesis
      unfolding update_residual_def by (intro keeps_bnd keeps_mod_cmd) (simp_all add: sg_next_def split: option.split)
  qed
  ultimately show ?thesis
    unfolding stop_transfer_def
    by (intro keeps_peek keeps_when keeps_deref keeps_seqs_Cons keeps_seqs_Nil keeps_mod_hd) simp_all
qed

lemma intr_faults:
  assumes w: "sane False A xs ys w"
    and ok: "\<And>c. selecting (hdata w) = Some c \<or> connected (hdata w) = Some c \<Longrightarrow> ok_addr A c \<and> c \<notin> set xs \<and> c \<notin> set ys"
    and sg: "\<And>c. connected (hdata w) = Some c \<Longrightarrow> sg_next (cmds w c)"
    and f: "wd33c93_intr e w = Inl f"
  shows "f = Waiting \<or> (\<exists>asr sr phs rest. wd_in w = asr # sr # phs # rest \<and> unfit (hdata w) sr phs f)"
proof (cases "\<exists>asr sr phs rest. wd_in w = asr # sr # phs # rest")
  case False
  have "\<not> lock (hdata w)" using w by (simp add: sane_def)
  then show ?thesis
    using f False by (auto simp: wd33c93_intr_def spin_lock_def run_simps split: list.splits if_splits)
next
  case True
  then obtain asr sr phs rest where i: "wd_in w = asr # sr # phs # rest" by auto
  let ?h = "hdata w" and ?c = "connected (hdata w)"
  let ?w = "w\<lparr>hdata := ?h\<lparr>lock := True, int_cnt := int_cnt ?h + 1\<rparr>, wd_in := rest,
     events := events w @ [Rd_SASR asr, Wr_SASR WD_SCSI_STATUS, Rd_SCMD sr, Wr_SASR WD_COMMAND_PHASE, Rd_SCMD phs]\<rparr>"
  let ?P = "\<lambda>w. sane True A xs ys w \<and> seen (hdata w) = seen ?h \<and> (\<forall>c. ?c = Some c \<longrightarrow> sg_next (cmds w c))"
  have "\<not> lock ?h" using w by (simp add: sane_def)
  then have m: "thn (stop_transfer e ?c) (intr_dispatch e asr sr phs ?c) ?w = Inl f"
    using f i by (auto simp: wd33c93_intr_def spin_lock_def run_simps split: if_splits)
  have s: "sane True A xs ys ?w"
    using w by (auto simp: sane_def arrays_ok_def wf_host_def addr_of_def fun_eq_iff intro: queue_of_frame)
  have F: "Waiting \<in> may_fail ?h sr phs" "?c = None \<Longrightarrow> dma ?h = D_DMA_RUNNING \<Longrightarrow> Null_deref \<in> may_fail ?h sr phs"
    by (simp_all add: may_fail_def unfit_def)
  have "only (may_fail ?h sr phs) (\<lambda>w. ?P w \<and> dma (hdata w) = dma ?h) (thn (stop_transfer e ?c) (intr_dispatch e asr sr phs ?c))"
  proof (rule only_thn)
    show "only (may_fail ?h sr phs) (\<lambda>w. ?P w \<and> dma (hdata w) = dma ?h) (stop_transfer e ?c)"
      by (rule only_pre [OF only_stop_transfer [OF F, where b = True and A = A and xs = xs and ys = ys]]) auto
    show "hoare (\<lambda>w. ?P w \<and> dma (hdata w) = dma ?h) (stop_transfer e ?c) (\<lambda>_. ?P)"
    proof (rule hoareI)
      fix v x v' assume v: "?P v \<and> dma (hdata v) = dma ?h" and m: "stop_transfer e ?c v = Inr (x, v')"
      have "sane True A xs ys v'" using core_sane [OF keepsD [OF core_stop_transfer m]] v by blast
      then show "?P v'"
        using v keepsD [OF keeps_stop_seen m] keepsD [OF keeps_stop_sg m] by simp
    qed
    show "only (may_fail ?h sr phs) ?P (intr_dispatch e asr sr phs ?c)"
      by (rule only_dispatch [OF refl]) (use ok in auto)
  qed
  from onlyD [OF this m] s sg have "f \<in> may_fail ?h sr phs" by (simp add: seen_def)
  then show ?thesis using i by (auto simp: may_fail_def)
qed

end

section \<open>The lock and the arrays after the handler\<close>

text \<open>
  \<open>guard w\<close> is whether the lock is held and whether the arrays have their shape. \<open>ends m\<close>: a
  completed run of \<open>m\<close> that starts with the lock held releases it and keeps the shape.
\<close>

definition guard :: "world \<Rightarrow> bool \<times> bool" where
  "guard w = (lock (hdata w), arrays_ok w)"

definition ends :: "'a drv \<Rightarrow> bool" where
  "ends m \<longleftrightarrow> hoare (\<lambda>w. guard w = (True, True)) m (\<lambda>_ w. guard w = (False, True))"

named_theorems gk "a program keeps the lock and the arrays"

lemma core_guard: "keeps core m \<Longrightarrow> keeps guard m"
proof -
  have "guard w' = guard w" if "core w' = core w" for w w'
    using core_eqD [OF that] by (simp add: guard_def arrays_ok_def wf_host_def)
  then show "keeps core m \<Longrightarrow> keeps guard m" unfolding keeps_def by blast
qed

lemmas [gk] = keeps_ret keeps_throw keeps_bnd keeps_thn keeps_peek keeps_if keeps_when
  keeps_arr_get keeps_arr_ok keeps_lift keeps_deref keeps_option keeps_prod keeps_seqs_Nil keeps_seqs_Cons

lemmas [gk] = fk [THEN core_guard]

lemma guard_queues [gk]: "keeps guard (modify (push_q disconnected_Q disconnected_Q_update c))"
  "keeps guard (modify (push_q input_Q input_Q_update c))"
  "keeps guard (modify (unlink_q input_Q_update p c))" "keeps guard (modify (unlink_q disconnected_Q_update p c))"
  by (rule keeps_modify; simp add: guard_def push_frame unlink_frame)+

lemma guard_parts [gk]: "keeps guard (park c)" "keeps guard (resel_conflict cmd phs)"
  unfolding park_def resel_conflict_def requeue_def by (intro gk; simp)+

lemma ends_thn: "keeps guard m \<Longrightarrow> ends n \<Longrightarrow> ends (thn m n)"
  unfolding ends_def by (rule hoare_thn) (auto simp: keeps_def hoare_def)

lemma ends_bnd: "keeps guard m \<Longrightarrow> (\<And>x. ends (f x)) \<Longrightarrow> ends (bnd m f)"
  unfolding ends_def by (rule hoare_bnd [where R = "\<lambda>_ w. guard w = (True, True)"]) (auto simp: keeps_def hoare_def)

lemma ends_peek: "(\<And>w. ends (f w)) \<Longrightarrow> ends (peek f)"
  by (auto simp: ends_def hoare_def peek_run)

lemma ends_if: "(b \<Longrightarrow> ends m) \<Longrightarrow> (\<not> b \<Longrightarrow> ends n) \<Longrightarrow> ends (if b then m else n)"
  by simp

lemma ends_deref: "(\<And>c. p = Some c \<Longrightarrow> ends (f c)) \<Longrightarrow> ends (deref p f)"
  by (cases p) (auto simp: ends_def hoare_def deref_def throw_run)

lemma ends_option:
  "(p = None \<Longrightarrow> ends m) \<Longrightarrow> (\<And>c. p = Some c \<Longrightarrow> ends (f c)) \<Longrightarrow> ends (case p of None \<Rightarrow> m | Some c \<Rightarrow> f c)"
  by (cases p) auto

lemma ends_unlock: "ends spin_unlock"
  by (auto simp: ends_def hoare_def spin_unlock_def run_simps guard_def arrays_ok_def wf_host_def split: if_splits)

lemma ends_then: "keeps guard n \<Longrightarrow> ends (thn spin_unlock n)"
  using ends_unlock unfolding ends_def by (rule hoare_thn) (auto simp: keeps_def hoare_def)

lemma ends_last: "ends m \<Longrightarrow> ends (thn m (ret x))"
  unfolding ends_def by (rule hoare_thn, assumption, rule hoare_ret)

lemmas ends_rules = ends_last ends_then ends_thn ends_bnd ends_peek ends_if ends_deref ends_option ends_unlock

lemma ends_reconnect: "ends (reconnect src lun)"
  unfolding reconnect_def seqs.simps prod.case_eq_if by (intro ends_rules gk) simp_all

context dma_waits begin

lemma guard_execute [gk]: "keeps guard (wd33c93_execute e)"
proof -
  have "keeps guard (start_cmd e c)" for c
    unfolding start_cmd_def start_select_xfer_def
    by (intro gk core_guard [OF core_prepare_data]) simp_all
  then show ?thesis unfolding wd33c93_execute_def by (intro gk)
qed

lemma ends_dispatch: "ends (intr_dispatch e asr sr phs cmd)"
proof -
  have "ends (intr_timeout e cmd)"
    unfolding intr_timeout_def seqs.simps by (intro ends_rules gk guard_execute) simp_all
  moreover have "ends intr_select"
    unfolding intr_select_def seqs.simps by (intro ends_rules gk) simp_all
  moreover have "ends (intr_data e cmd d)" for d
    unfolding intr_data_def seqs.simps by (intro ends_rules gk core_guard [OF core_transfer_bytes])
  moreover have "ends (intr_command cmd)" "ends (intr_status cmd)" "ends (intr_mess_in cmd)" "ends intr_sdp" "ends intr_mess_out"
    unfolding intr_command_def intr_status_def intr_mess_in_def intr_sdp_def intr_mess_out_def seqs.simps
    by (intro ends_rules gk; simp)+
  moreover have "ends (intr_sel_xfer_done e cmd phs)"
    unfolding intr_sel_xfer_done_def seqs.simps by (intro ends_rules gk guard_execute) simp_all
  moreover have "ends (intr_unexp_disc e cmd)"
    unfolding intr_unexp_disc_def seqs.simps by (intro ends_rules gk guard_execute)
  moreover have "ends (intr_disc e cmd)"
  proof -
    have "keeps guard (case s of
               S_PRE_CMP_DISC \<Rightarrow> deref cmd (\<lambda>c. seqs [drop_connected c, set_result e c, emit (Scsi_done c)])
             | S_PRE_TMP_DISC \<Rightarrow> deref cmd park
             | S_RUNNING_LEVEL2 \<Rightarrow> deref cmd park
             | _ \<Rightarrow> set_state S_UNCONNECTED)" for s
      by (cases s) (simp_all only: run_state.case, (intro gk)+)
    then show ?thesis
      unfolding intr_disc_def seqs.simps by (intro ends_rules gk guard_execute)
  qed
  moreover have "ends (intr_resel cmd asr sr phs)"
    unfolding intr_resel_def by (intro ends_rules gk ends_reconnect)
  ultimately show ?thesis
    unfolding intr_dispatch_def by (intro ends_if ends_unlock)
qed

lemma intr_releases:
  assumes "\<not> lock (hdata w)" and "arrays_ok w" and "wd33c93_intr e w = Inr (x, w')"
  shows "\<not> lock (hdata w') \<and> arrays_ok w'"
proof -
  have run: "ends (thn (mod_hd (\<lambda>h. h\<lparr>int_cnt := int_cnt h + 1\<rparr>)) (peek (\<lambda>w.
         bnd (read_wd33c93 WD_SCSI_STATUS) (\<lambda>sr. bnd (read_wd33c93 WD_COMMAND_PHASE) (\<lambda>phs.
         thn (stop_transfer e (connected (hdata w)))
             (intr_dispatch e asr sr phs (connected (hdata w))))))))" (is "ends ?m") for asr
    by (intro ends_rules gk core_guard [OF core_stop_transfer] ends_dispatch) simp_all
  obtain asr w1 where a: "read_aux_stat w = Inr (asr, w1)"
    and r: "(if \<not> bit_on asr ASR_INT \<or> bit_on asr ASR_BSY then ret () else thn spin_lock (?m asr)) w1 = Inr (x, w')"
    using assms(3) unfolding wd33c93_intr_def by (rule bnd_InrE)
  have "guard w1 = (False, True)"
    using assms(1,2) keepsD [OF core_guard [OF io_free_core [OF io_keeps(5)]] a] by (simp add: guard_def)
  then show ?thesis
  proof (cases "\<not> bit_on asr ASR_INT \<or> bit_on asr ASR_BSY")
    case True
    then show ?thesis using r \<open>guard w1 = _\<close> by (simp add: ret_run guard_def)
  next
    case False
    then obtain w2 where l: "spin_lock w1 = Inr ((), w2)" and m: "?m asr w2 = Inr (x, w')"
      using r by (auto elim: thn_InrE)
    have "guard w2 = (True, True)"
    proof -
      have "w2 = w1\<lparr>hdata := (hdata w1)\<lparr>lock := True\<rparr>\<rparr>" using l by (auto simp: spin_lock_def run_simps split: if_splits)
      moreover have "arrays_ok (w1\<lparr>hdata := (hdata w1)\<lparr>lock := True\<rparr>\<rparr>) = arrays_ok w1"
        by (rule arrays_frame) (simp_all add: wf_host_def)
      ultimately show ?thesis using \<open>guard w1 = _\<close> by (simp add: guard_def)
    qed
    from hoareD [OF run [unfolded ends_def] m this] show ?thesis by (simp add: guard_def)
  qed
qed

end

section \<open>An extended message that is too long\<close>

text \<open>What the chip delivers for one message byte of a connected target.\<close>

definition msg_byte :: "u8 \<Rightarrow> u8 list" where
  "msg_byte b = [ASR_INT, CSR_XFER_DONE OR PHS_MESS_IN, 0, ASR_INT OR ASR_DBR, b, 0]"

lemma read_1_byte_direct:
  "wd_in w = (ASR_INT OR ASR_DBR) # b # rest \<Longrightarrow>
   \<exists>ev. read_1_byte w = Inr (b, w\<lparr>wd_in := rest, events := events w @ ev\<rparr>)"
  by (rule exI [of _ "[Wr_SASR WD_CONTROL, Wr_SCMD 12, Wr_SASR WD_COMMAND, Wr_SCMD 160, Rd_SASR 129, Wr_SASR WD_DATA, Rd_SCMD b]"])
    (simp add: read_1_byte_def run_simps poll_1_byte.simps bit_on_def)

lemma extended_byte:
  assumes "\<not> lock (hdata w)" and "dma (hdata w) = D_DMA_OFF" and "connected (hdata w) = Some c"
    and "length (incoming_msg (hdata w)) = 8" and "incoming_ptr (hdata w) = n" and "n < 8"
    and "(incoming_msg (hdata w))[n := b] ! 0 = EXTENDED_MESSAGE"
    and "2 \<le> n \<Longrightarrow> unat (incoming_msg (hdata w) ! 1) + 1 \<noteq> n"
    and "wd_in w = msg_byte b @ rest"
  shows "\<exists>w'. wd33c93_intr e w = Inr ((), w') \<and> wd_in w' = rest \<and> \<not> lock (hdata w') \<and>
    dma (hdata w') = D_DMA_OFF \<and> connected (hdata w') = Some c \<and>
    incoming_msg (hdata w') = (incoming_msg (hdata w))[n := b] \<and> incoming_ptr (hdata w') = Suc n"
proof -
  let ?h = "(hdata w)\<lparr>lock := True, int_cnt := int_cnt (hdata w) + 1\<rparr>"
  have s: "EXTENDED_MESSAGE = 1" by simp
  obtain ev where r: "read_1_byte (w\<lparr>hdata := ?h, wd_in := (ASR_INT OR ASR_DBR) # b # 0 # rest,
      events := events w @ [Rd_SASR ASR_INT, Wr_SASR WD_SCSI_STATUS, Rd_SCMD (CSR_XFER_DONE OR PHS_MESS_IN),
        Wr_SASR WD_COMMAND_PHASE, Rd_SCMD 0]\<rparr>) =
      Inr (b, w\<lparr>hdata := ?h, wd_in := 0 # rest, events := ev\<rparr>)"
    using read_1_byte_direct [of "w\<lparr>hdata := ?h, wd_in := (ASR_INT OR ASR_DBR) # b # 0 # rest,
      events := events w @ [Rd_SASR ASR_INT, Wr_SASR WD_SCSI_STATUS, Rd_SCMD (CSR_XFER_DONE OR PHS_MESS_IN),
        Wr_SASR WD_COMMAND_PHASE, Rd_SCMD 0]\<rparr>" b "0 # rest"] by auto
  note defs = wd33c93_intr_def run_simps msg_byte_def bit_on_def spin_lock_def spin_unlock_def stop_transfer_def
    intr_dispatch_def phase_int_def intr_mess_in_def store_msg_def handle_msg_def msg_extended_def
    negate_ack_def set_state_def Let_def nth_list_update
  show ?thesis
  proof (cases "2 \<le> n")
    case True
    then have "n \<noteq> Suc (unat (incoming_msg (hdata w) ! Suc 0))" using assms(8) by simp
    with True show ?thesis using assms(1-7,9) r by (simp add: defs)
  next
    case False
    then show ?thesis using assms(1-7,9) r by (simp add: defs)
  qed
qed

lemma ninth_byte:
  assumes "\<not> lock (hdata w)" and "dma (hdata w) = D_DMA_OFF" and "connected (hdata w) = Some c"
    and "length (incoming_msg (hdata w)) = 8" and "incoming_ptr (hdata w) = 8"
    and "wd_in w = msg_byte b @ rest"
  shows "wd33c93_intr e w = Inl Out_of_bounds"
proof -
  let ?w = "w\<lparr>hdata := (hdata w)\<lparr>lock := True, int_cnt := int_cnt (hdata w) + 1\<rparr>,
      wd_in := (ASR_INT OR ASR_DBR) # b # 0 # rest,
      events := events w @ [Rd_SASR ASR_INT, Wr_SASR WD_SCSI_STATUS, Rd_SCMD (CSR_XFER_DONE OR PHS_MESS_IN),
        Wr_SASR WD_COMMAND_PHASE, Rd_SCMD 0]\<rparr>"
  obtain ev where r: "read_1_byte ?w = Inr (b, ?w\<lparr>wd_in := 0 # rest, events := ev\<rparr>)"
    using read_1_byte_direct [of ?w b "0 # rest"] by auto
  show ?thesis
    using assms r by (simp add: wd33c93_intr_def run_simps msg_byte_def bit_on_def spin_lock_def
      stop_transfer_def intr_dispatch_def phase_int_def intr_mess_in_def store_msg_def)
qed


text \<open>\<open>hearing bs c n w\<close>: \<open>n\<close> of the bytes \<open>bs\<close> are stored, the chip delivers the others.\<close>

definition hearing :: "u8 list \<Rightarrow> cptr \<Rightarrow> nat \<Rightarrow> world \<Rightarrow> bool" where
  "hearing bs c n w \<longleftrightarrow> \<not> lock (hdata w) \<and> dma (hdata w) = D_DMA_OFF \<and> connected (hdata w) = Some c \<and>
     length (incoming_msg (hdata w)) = 8 \<and> incoming_ptr (hdata w) = n \<and>
     take n (incoming_msg (hdata w)) = take n bs \<and> wd_in w = concat (map msg_byte (drop n bs))"

lemma hearing_step:
  assumes "hearing bs c n w" and "n < 8" and "length bs = 9" and "bs ! 0 = EXTENDED_MESSAGE"
    and "unat (bs ! 1) \<notin> {1..6}"
  shows "\<exists>w'. wd33c93_intr e w = Inr ((), w') \<and> hearing bs c (Suc n) w'"
proof -
  note h = assms(1)[unfolded hearing_def]
  have nth: "incoming_msg (hdata w) ! i = bs ! i" if "i < n" for i
    using h that by (metis nth_take)
  have d: "drop n bs = bs ! n # drop (Suc n) bs" using assms(2,3) by (simp add: Cons_nth_drop_Suc)
  have z: "(incoming_msg (hdata w))[n := bs ! n] ! 0 = EXTENDED_MESSAGE"
    using nth [of 0] h assms(2,4) by (cases n) simp_all
  have l: "unat (incoming_msg (hdata w) ! 1) + 1 \<noteq> n" if "2 \<le> n"
    using nth [of 1] that assms(2,5) by auto
  obtain w' where "wd33c93_intr e w = Inr ((), w') \<and> wd_in w' = concat (map msg_byte (drop (Suc n) bs)) \<and>
      \<not> lock (hdata w') \<and> dma (hdata w') = D_DMA_OFF \<and> connected (hdata w') = Some c \<and>
      incoming_msg (hdata w') = (incoming_msg (hdata w))[n := bs ! n] \<and> incoming_ptr (hdata w') = Suc n"
    using extended_byte [of w c n "bs ! n" "concat (map msg_byte (drop (Suc n) bs))" e] h z l assms(2) d by auto
  moreover have "take (Suc n) ((incoming_msg (hdata w))[n := bs ! n]) = take (Suc n) bs"
    using h assms(2,3) by (simp add: take_Suc_conv_app_nth)
  ultimately show ?thesis using h unfolding hearing_def by (intro exI [of _ w']) simp
qed

lemma hearing_overflows:
  assumes "hearing bs c n w" and "n \<le> 8" and "length bs = 9" and "bs ! 0 = EXTENDED_MESSAGE"
    and "unat (bs ! 1) \<notin> {1..6}"
  shows "seqs (replicate (9 - n) (wd33c93_intr e)) w = Inl Out_of_bounds"
  using assms(1,2)
proof (induction "8 - n" arbitrary: n w)
  case 0
  then have n: "n = 8" by simp
  have "drop 8 bs = [bs ! 8]" using assms(3) by (simp add: Cons_nth_drop_Suc [symmetric])
  with 0(2) n ninth_byte [of w c "bs ! 8" "[]" e] show ?case
    by (auto simp: hearing_def thn_run)
next
  case (Suc k)
  then have n: "n < 8" "9 - n = Suc (9 - Suc n)" by auto
  obtain w' where r: "wd33c93_intr e w = Inr ((), w')" "hearing bs c (Suc n) w'"
    using hearing_step [OF Suc(3) n(1) assms(3-5)] by blast
  have "seqs (replicate (9 - Suc n) (wd33c93_intr e)) w' = Inl Out_of_bounds"
    using Suc(1) [of "Suc n" w'] Suc(2) r(2) n(1) by simp
  then show ?case using r(1) n(2) by (simp add: thn_run)
qed

section \<open>Properties\<close>

lemma REP_sane:
  assumes "REP A v w" and "wf_view A v" and "arrays_ok w"
  shows "sane (lock (hdata w)) A (v_in v) (v_dis v) w"
    and "selecting (hdata w) = Some c \<or> connected (hdata w) = Some c \<Longrightarrow>
      ok_addr A c \<and> c \<notin> set (v_in v) \<and> c \<notin> set (v_dis v)"
  using assms by (auto simp: REP_def R_def sane_def wf_view_def active_def outstanding_def)

text \<open>
  C4. The interrupt handler does not crash. In a driver state whose queues, pointers and busy map
  agree and whose arrays have their lengths, whatever the chip answers, the handler never
  deadlocks, never releases a lock it does not hold, never walks a cyclic list, never shifts or
  divides out of range; it can only be left waiting for the chip, or fail because the chip's report
  does not fit the state (\<open>unfit\<close>): a phase without a connected command, more message bytes than
  the array holds, or a reselection in the middle of a running command.
\<close>
theorem intr_fault_free:
  assumes "REP A v w" and "wf_view A v" and "arrays_ok w" and "\<not> lock (hdata w)"
    and "\<And>c. connected (hdata w) = Some c \<Longrightarrow> sg_next (cmds w c)"
    and "wd33c93_intr (a3000_env k) w = Inl f"
  shows "f = Waiting \<or> (\<exists>asr sr phs rest. wd_in w = asr # sr # phs # rest \<and> unfit (hdata w) sr phs f)"
proof -
  have "sane False A (v_in v) (v_dis v) w" using REP_sane(1) [OF assms(1-3)] assms(4) by simp
  from a3w.intr_faults [OF this REP_sane(2) [OF assms(1-3)] assms(5,6)] show ?thesis by blast
qed

definition fails_with :: "fault \<Rightarrow> 'a drv \<Rightarrow> world \<Rightarrow> bool" where
  "fails_with f m w = (case m w of Inl g \<Rightarrow> g = f | Inr _ \<Rightarrow> False)"

text \<open>The chip reports the status phase to an idle driver.\<close>

definition sample_stray :: world where
  "sample_stray = sample_waiting\<lparr>wd_in := [ASR_INT, CSR_XFER_DONE OR PHS_STATUS, 0, ASR_INT]\<rparr>"

lemma sample_stray_fails: "fails_with Null_deref (wd33c93_intr (a3000_env sample_kernel)) sample_stray"
  by code_simp

theorem intr_fault_free_witness:
  "\<exists>f. wd33c93_intr (a3000_env sample_kernel) sample_stray = Inl f \<and> unfit (hdata sample_stray) 0x1b 0 f"
proof -
  let ?A = "addr_of sample_world" and ?v = "(idle_view [])\<lparr>v_in := [3]\<rparr>"
  obtain f where f: "wd33c93_intr (a3000_env sample_kernel) sample_stray = Inl f" "f = Null_deref"
    using sample_stray_fails by (auto simp: fails_with_def split: sum.splits)
  have "qcore sample_stray = qcore sample_waiting" by (simp add: sample_stray_def qcore_def)
  then have rep: "REP ?A ?v sample_stray"
    using sample_waiting_view(1) by (auto simp: REP_def intro: R_frame)
  have h: "hdata sample_stray = sample_host\<lparr>input_Q := Some 3\<rparr>" "cmds sample_stray = sample_cmd"
    by (auto simp: sample_stray_def sample_waiting_def push_q_def sample_world_def sample_host_def sample_cmd_def)
  have "sx_ok sample_table" by code_simp
  then have "arrays_ok sample_stray"
    by (simp add: arrays_ok_def h wf_host_def sample_host_def sample_cmd_def sample_table_def)
  moreover have "\<not> lock (hdata sample_stray)" by (simp add: h sample_host_def)
  moreover have "sg_next (cmds sample_stray c)" if "connected (hdata sample_stray) = Some c" for c
    using that by (simp add: h sample_host_def)
  ultimately have "f = Waiting \<or> (\<exists>asr sr phs rest. wd_in sample_stray = asr # sr # phs # rest \<and>
      unfit (hdata sample_stray) sr phs f)"
    using intr_fault_free [OF rep sample_waiting_view(2) _ _ _ f(1)] by blast
  then show ?thesis using f by (auto simp: sample_stray_def)
qed

text \<open>
  C25. The interrupt handler releases \<open>hostdata->lock\<close> on every path that returns, and the arrays
  keep their lengths and the period table its shape.
\<close>
theorem intr_lock_released:
  assumes "\<not> lock (hdata w)" and "arrays_ok w" and "wd33c93_intr (a3000_env k) w = Inr (x, w')"
  shows "\<not> lock (hdata w') \<and> arrays_ok w'"
  by (rule a3w.intr_releases [OF assms])

theorem intr_lock_released_witness:
  "\<exists>x w'. wd33c93_intr (a3000_env sample_kernel) sample_racing = Inr (x, w') \<and> \<not> lock (hdata w')"
proof -
  obtain x w' where m: "wd33c93_intr (a3000_env sample_kernel) sample_racing = Inr (x, w')"
    using succeedsD [OF sample_race] by blast
  have "sx_ok sample_table" by code_simp
  then have a: "arrays_ok sample_racing" and l: "\<not> lock (hdata sample_racing)"
    by (simp_all add: arrays_ok_def wf_host_def sample_racing_def sample_world_def sample_host_def sample_cmd_def sample_table_def)
  from intr_lock_released [OF l a m] m show ?thesis by blast
qed

text \<open>
  C17. A target can make the driver write outside \<open>incoming_msg\<close>: the length byte of an extended
  message is not checked, so when the message has a length byte other than 1 to 6 the interrupts
  for its first eight bytes fill the array and the ninth is stored one past its end.
\<close>
theorem message_overflow:
  assumes "\<not> lock (hdata w)" and "dma (hdata w) = D_DMA_OFF" and "connected (hdata w) = Some c"
    and "length (incoming_msg (hdata w)) = 8" and "incoming_ptr (hdata w) = 0"
    and "length bs = 9" and "bs ! 0 = EXTENDED_MESSAGE" and "unat (bs ! 1) \<notin> {1..6}"
    and "wd_in w = concat (map msg_byte bs)"
  shows "seqs (replicate 9 (wd33c93_intr e)) w = Inl Out_of_bounds"
  using hearing_overflows [of bs c 0 w e] assms by (simp add: hearing_def)

text \<open>A target that sends the nine bytes of an extended message with a length byte of 32.\<close>

definition sample_chatty :: world where
  "sample_chatty = sample_world\<lparr>
     hdata := sample_host\<lparr>connected := Some 3, state := S_CONNECTED, busy := [0, 0, 0, 1, 0, 0, 0, 0]\<rparr>,
     wd_in := concat (map msg_byte [EXTENDED_MESSAGE, 32, 0, 0, 0, 0, 0, 0, 0])\<rparr>"

theorem message_overflow_witness:
  "seqs (replicate 9 (wd33c93_intr (a3000_env sample_kernel))) sample_chatty = Inl Out_of_bounds"
  by (rule message_overflow [where c = 3 and bs = "[EXTENDED_MESSAGE, 32, 0, 0, 0, 0, 0, 0, 0]"])
    (simp_all add: sample_chatty_def sample_world_def sample_host_def)

end
