(* ===== verification/Startup.thy ===== *)
theory Startup
  imports Driver FaultFree
begin

text \<open>
  Configuration and initialisation: the command line, \<^verbatim>\<open>wd33c93_init\<close> and the writable part of the
  proc interface. \<open>meets P m Q\<close> is the judgement for code that runs once: a run from \<open>P\<close> either
  waits for the hardware or ends in \<open>Q\<close>.
\<close>

section \<open>Runs that do what they should or wait\<close>

definition meets :: "('s \<Rightarrow> bool) \<Rightarrow> ('s, 'a) prog \<Rightarrow> ('a \<Rightarrow> 's \<Rightarrow> bool) \<Rightarrow> bool" where
  "meets P m Q \<longleftrightarrow> (\<forall>w. P w \<longrightarrow> (case m w of Inl f \<Rightarrow> f = Waiting | Inr (x, w') \<Rightarrow> Q x w'))"

named_theorems mt "rules of the judgement"

lemma meetsD: "meets P m Q \<Longrightarrow> P w \<Longrightarrow> m w = Inl f \<Longrightarrow> f = Waiting"
  "meets P m Q \<Longrightarrow> P w \<Longrightarrow> m w = Inr (x, w') \<Longrightarrow> Q x w'"
  unfolding meets_def by (metis sum.case(1), metis (mono_tags, lifting) sum.case(2) prod.case)

lemma meets_bnd: "meets P m S \<Longrightarrow> (\<And>x. meets (S x) (f x) Q) \<Longrightarrow> meets P (bnd m f) Q"
  unfolding meets_def bnd_def by (fastforce split: sum.splits)

lemma meets_thn: "meets P m (\<lambda>_. S) \<Longrightarrow> meets S n Q \<Longrightarrow> meets P (thn m n) Q"
  unfolding thn_def by (rule meets_bnd)

lemma meets_pre: "meets P m Q \<Longrightarrow> (\<And>w. P' w \<Longrightarrow> P w) \<Longrightarrow> meets P' m Q"
  by (auto simp: meets_def)

lemma meets_post: "meets P m Q \<Longrightarrow> (\<And>x w. Q x w \<Longrightarrow> Q' x w) \<Longrightarrow> meets P m Q'"
  unfolding meets_def by (fastforce split: sum.splits)

lemma meets_ret: "(\<And>w. P w \<Longrightarrow> Q x w) \<Longrightarrow> meets P (ret x) Q"
  by (simp add: meets_def ret_run)

lemma meets_modify: "(\<And>w. P w \<Longrightarrow> Q () (f w)) \<Longrightarrow> meets P (modify f) Q"
  by (simp add: meets_def modify_run)

lemma meets_peek: "(\<And>w. P w \<Longrightarrow> meets (\<lambda>u. u = w) (f w) Q) \<Longrightarrow> meets P (peek f) Q"
  by (simp add: meets_def peek_run)

lemma meets_when: "(b \<Longrightarrow> meets P m Q) \<Longrightarrow> (\<And>w. \<not> b \<Longrightarrow> P w \<Longrightarrow> Q () w) \<Longrightarrow> meets P (when_do b m) Q"
  by (auto simp: meets_def when_do_def ret_run)

lemma meets_lift: "(\<And>w. P w \<Longrightarrow> \<exists>x. r = Inr x \<and> Q x w) \<Longrightarrow> meets P (lift r) Q"
  by (fastforce simp: meets_def lift_run)

lemma meets_keeps:
  assumes "only {Waiting} P m" and "keeps f m" and "\<And>w w'. f w' = f w \<Longrightarrow> P w \<Longrightarrow> Q w'"
  shows "meets P m (\<lambda>_. Q)"
  using assms unfolding meets_def only_def keeps_def by (fastforce split: sum.splits)

section \<open>The command line\<close>

text \<open>
  The members of a comma-separated text, and what the in-place splitting makes of them: the
  \<open>n\<close>th member that is not blank becomes the \<open>n\<close>th argument.
\<close>

fun members :: "string \<Rightarrow> string list" where
  "members [] = [[]]"
| "members (c # s) = (if c = CHR '','' then [] # members s
     else (case members s of [] \<Rightarrow> [[c]] | m # ms \<Rightarrow> (c # m) # ms))"

lemma members_nonempty: "members s \<noteq> []"
  by (cases s) (auto split: list.splits)

lemma members_comma: "CHR '','' \<notin> set m \<Longrightarrow> members (m @ CHR '','' # s) = m # members s"
  by (induction m) auto

lemma members_single: "CHR '','' \<notin> set m \<Longrightarrow> members m = [m]"
  by (induction m) auto

lemma takeWhile_until: "c \<notin> set s \<Longrightarrow> takeWhile (\<lambda>x. x \<noteq> c) (s @ c # zs) = s"
  by (induction s) auto

lemma c_str_eq: "drop p buf = s @ NUL # zs \<Longrightarrow> NUL \<notin> set s \<Longrightarrow> c_str p buf = s"
  by (simp add: c_str_def takeWhile_until)

lemma c_str_stable:
  assumes "drop p buf = s @ NUL # zs" and "NUL \<notin> set s" and "take (Suc (p + length s)) buf' = take (Suc (p + length s)) buf"
  shows "c_str p buf' = s"
proof -
  have "take (Suc (length s)) (drop p buf') = take (Suc (length s)) (drop p buf)"
    using assms(3) by (metis add_Suc_right drop_take add_diff_cancel_left')
  then have "take (Suc (length s)) (drop p buf') = s @ [NUL]" using assms(1) by simp
  then have "drop p buf' = s @ NUL # drop (Suc (length s)) (drop p buf')"
    by (metis append.assoc append_Cons append_Nil append_take_drop_id)
  then show ?thesis using assms(2) by (rule c_str_eq)
qed

text \<open>\<open>given ms i j sa sa' p buf\<close>: argument \<open>j\<close> after members \<open>ms\<close> were stored from argument \<open>i\<close> on.\<close>

definition given :: "string list \<Rightarrow> nat \<Rightarrow> setup_arg list \<Rightarrow> setup_arg list \<Rightarrow> string \<Rightarrow> bool" where
  "given ms i sa sa' buf \<longleftrightarrow> length sa' = length sa \<and>
     (\<forall>j < length sa. if i \<le> j \<and> j - i < length ms \<and> ms ! (j - i) \<noteq> []
        then \<exists>q. sa' ! j = Off q \<and> c_str q buf = ms ! (j - i) else sa' ! j = sa ! j)"

lemma given_Cons:
  assumes "given ms (Suc i) (if m \<noteq> [] then sa[i := Off p] else sa) sa' buf" and "c_str p buf = m"
  shows "given (m # ms) i sa sa' buf"
  unfolding given_def
proof (intro conjI allI impI)
  show "length sa' = length sa" using assms(1) by (simp add: given_def split: if_splits)
next
  fix j assume j: "j < length sa"
  consider "j < i" | "j = i" | "i < j" by linarith
  then show "if i \<le> j \<and> j - i < length (m # ms) \<and> (m # ms) ! (j - i) \<noteq> []
      then \<exists>q. sa' ! j = Off q \<and> c_str q buf = (m # ms) ! (j - i) else sa' ! j = sa ! j"
  proof cases
    case 3
    then have "j - i = Suc (j - Suc i)" "Suc i \<le> j" by auto
    then show ?thesis using assms(1) j 3 by (auto simp: given_def split: if_splits)
  qed (use assms j in \<open>auto simp: given_def nth_list_update split: if_splits\<close>)
qed

lemma parse_args_members:
  assumes "drop p1 buf = s @ NUL # zs" and "NUL \<notin> set s" and "length sa = MAX_SETUP_ARGS"
  shows "\<exists>buf' sa'. parse_args i p1 buf sa = Inr (buf', sa') \<and> take p1 buf' = take p1 buf \<and>
    given (members s) i sa sa' buf'"
  using assms
proof (induction "MAX_SETUP_ARGS - i" arbitrary: i p1 buf s sa)
  case 0
  then have "p1 < length buf" by (metis append_is_Nil_conv drop_all list.distinct(1) not_le)
  then show ?case using 0 by (subst parse_args.simps) (auto simp: given_def)
next
  case (Suc k)
  have p1: "p1 < length buf" using Suc.prems(1) by (metis append_is_Nil_conv drop_all list.distinct(1) not_le)
  have i: "i < MAX_SETUP_ARGS" using Suc.hyps(2) by simp
  have cs: "c_str p1 buf = s" using c_str_eq [OF Suc.prems(1,2)] .
  have hd: "buf ! p1 = hd (s @ [NUL])"
    using Suc.prems(1) p1 by (metis Cons_nth_drop_Suc append_self_conv2 hd_append list.sel(1) list.distinct(1))
  show ?case
  proof (cases "s = []")
    case True
    then show ?thesis using hd p1 by (subst parse_args.simps) (auto simp: given_def nth_Cons' split: if_splits)
  next
    case ne: False
    then have nn: "buf ! p1 \<noteq> NUL" using hd Suc.prems(2) by (cases s) auto
    show ?thesis
    proof (cases "CHR '','' \<in> set s")
      case False
      then have "parse_args i p1 buf sa = Inr (buf, sa[i := Off p1])"
        using p1 nn i cs by (subst parse_args.simps) (simp add: strchr_comma_def)
      moreover have "given (members s) i sa (sa[i := Off p1]) buf"
        using False ne cs i Suc.prems(3) by (auto simp: given_def members_single nth_list_update)
      ultimately show ?thesis by simp
    next
      case True
      then obtain m rest where s: "s = m @ CHR '','' # rest" "CHR '','' \<notin> set m" by (meson split_list_first)
      let ?p2 = "p1 + length m" let ?buf = "buf[?p2 := NUL]" let ?sa = "if m \<noteq> [] then sa[i := Off p1] else sa"
      have lb: "?p2 < length buf"
        using arg_cong [OF Suc.prems(1), of length] s p1 by simp
      have d: "drop p1 ?buf = m @ NUL # rest @ NUL # zs"
        using Suc.prems(1) s by (simp add: drop_update_swap)
      have "drop (Suc ?p2) ?buf = drop (Suc (length m)) (drop p1 ?buf)"
        by (simp add: add.commute)
      then have d2: "drop (Suc ?p2) ?buf = rest @ NUL # zs" unfolding d by simp
      have tw: "takeWhile (\<lambda>c. c \<noteq> CHR '','') s = m" using s by (simp add: takeWhile_until)
      have step: "parse_args i p1 buf sa = parse_args (Suc i) (Suc ?p2) ?buf ?sa"
        using p1 nn i cs True tw by (subst parse_args.simps) (simp add: strchr_comma_def)
      have k: "k = MAX_SETUP_ARGS - Suc i" and nr: "NUL \<notin> set rest" and la: "length ?sa = MAX_SETUP_ARGS"
        using Suc.hyps(2) Suc.prems(2,3) s by auto
      obtain buf' sa' where r: "parse_args (Suc i) (Suc ?p2) ?buf ?sa = Inr (buf', sa')"
        "take (Suc ?p2) buf' = take (Suc ?p2) ?buf" "given (members rest) (Suc i) ?sa sa' buf'"
        using Suc.hyps(1) [OF k d2 nr la] by blast
      have "c_str p1 buf' = m" using c_str_stable [OF d _ r(2)] Suc.prems(2) s by simp
      moreover have "take p1 buf' = take p1 buf"
        using arg_cong [OF r(2), of "take p1"] by (simp add: min_def)
      moreover have "given (members s) i sa sa' buf'"
        unfolding s(1) members_comma [OF s(2)] by (rule given_Cons [OF r(3)]) fact
      ultimately show ?thesis using step r(1) by auto
    qed
  qed
qed


lemma fill_buffer_text:
  "NUL \<notin> set s \<Longrightarrow> \<exists>zs. drop 0 (fill_buffer (Some s) buf) = take 199 s @ NUL # zs"
proof (cases "length s < 200")
  case True
  then obtain n where n: "200 = length s + Suc n" by (metis less_imp_Suc_add add_Suc_right)
  then have e: "200 - length s = Suc n" by simp
  have r: "replicate 200 NUL = NUL # replicate n NUL @ replicate (length s) NUL"
    unfolding n by (metis append_Cons replicate_Suc replicate_add add.commute)
  have "take 200 (s @ replicate 200 NUL) = s @ NUL # replicate n NUL"
    using n unfolding r by (simp add: e)
  moreover have "(s @ NUL # replicate n NUL)[199 := NUL] = s @ NUL # (replicate n NUL)"
    by (rule list_update_same_conv [THEN iffD2]) (use n in \<open>auto simp: nth_append nth_Cons'\<close>)
  ultimately show ?thesis using True by (simp add: fill_buffer_def)
next
  case False
  then have "take 200 (s @ replicate 200 NUL) = take 199 s @ [s ! 199]"
    using take_Suc_conv_app_nth [of 199 s] by simp
  then show ?thesis using False by (simp add: fill_buffer_def list_update_append)
qed

lemma setup_members:
  assumes "NUL \<notin> set s" and "length (setup_args st) = MAX_SETUP_ARGS"
  shows "\<exists>st'. wd33c93_setup (Some s) st = Inr st' \<and> done_setup st' \<and> setup_used st' = replicate MAX_SETUP_ARGS False \<and>
    given (members (take 199 s)) 0 (setup_args st) (setup_args st') (setup_buffer st')"
proof -
  obtain zs where "drop 0 (fill_buffer (Some s) (setup_buffer st)) = take 199 s @ NUL # zs"
    using fill_buffer_text [OF assms(1)] by blast
  moreover have "NUL \<notin> set (take 199 s)" using assms(1) by (auto dest: in_set_takeD)
  ultimately show ?thesis
    using parse_args_members [OF _ _ assms(2), of 0 "fill_buffer (Some s) (setup_buffer st)" "take 199 s" zs 0]
    by (auto simp: wd33c93_setup_def)
qed

section \<open>Looking up a keyword\<close>

text \<open>The arguments a host adapter may look at: the unused ones before the next \<open>next\<close>.\<close>

definition visible :: "setup_state \<Rightarrow> nat list" where
  "visible st = takeWhile (\<lambda>x. \<not> prefix ''next'' (the_arg st x)) (filter (\<lambda>x. \<not> setup_used st ! x) [0..<MAX_SETUP_ARGS])"

lemma prefix_clash: "prefix a s \<Longrightarrow> prefix b s \<Longrightarrow> prefix a b \<or> prefix b a"
  by (auto simp: prefix_def append_eq_append_conv2)

lemma scan_args_visible:
  assumes "\<not> prefix key ''next''" and "\<not> prefix ''next'' key"
  shows "scan_args key st xs =
    List.find (\<lambda>x. prefix key (the_arg st x))
      (takeWhile (\<lambda>x. \<not> prefix ''next'' (the_arg st x)) (filter (\<lambda>x. \<not> setup_used st ! x) xs))"
  using prefix_clash [of key _ "''next''"] assms by (induction xs) auto


section \<open>The proc interface\<close>

text \<open>The number parsers give back no more text than they were given.\<close>

definition parsers_ok :: "('a kernel_scheme) \<Rightarrow> bool" where
  "parsers_ok k \<longleftrightarrow> (\<forall>s. length (snd (simple_strtoul k s)) \<le> length s \<and> length (snd (simple_strtol k s)) \<le> length s)"

text \<open>What the options do not touch.\<close>

definition settled :: "hostdata \<Rightarrow> hostdata" where
  "settled h = h\<lparr>args := 0, disconnect := 0, default_sx_per := 0, proc := 0, no_dma := 0, level2 := 0,
     dma_mode := 0, fast := 0, no_sync := 0, sync_stat := replicate (length (sync_stat h)) SS_UNSET\<rparr>"

lemma table_period_ok: "sx_ok (sx_table h) \<Longrightarrow> \<exists>p. table_period ns h = Inr p"
  using round_period_least [of "sx_table h" ns] sx_okD(1) [of "sx_table h"] by (auto simp: table_period_def)

lemma settled_resync: "settled (set_resync m h) = settled h"
  by (simp add: settled_def set_resync_def)

lemma settled_opts: "settled (set_fast_opt x h) = settled h" "settled (set_nosync_opt x h) = settled h"
  using settled_resync by (simp_all add: set_fast_opt_def set_nosync_opt_def settled_def set_resync_def Let_def)

lemma settled_upd [simp]:
  "settled (h\<lparr>args := a\<rparr>) = settled h" "settled (h\<lparr>disconnect := b\<rparr>) = settled h"
  "settled (h\<lparr>default_sx_per := n\<rparr>) = settled h" "settled (h\<lparr>proc := c\<rparr>) = settled h"
  "settled (h\<lparr>no_dma := d\<rparr>) = settled h" "settled (h\<lparr>level2 := e\<rparr>) = settled h"
  "settled (h\<lparr>dma_mode := m\<rparr>) = settled h"
  by (simp_all add: settled_def)

lemma write_option_ok:
  assumes k: "parsers_ok k" and t: "sx_ok (sx_table h)" and w: "write_option k bp h = Some r"
  shows "\<exists>h' bp'. r = Inr (h', bp') \<and> length bp' < length bp \<and> settled h' = settled h"
proof -
  have u: "length (snd (simple_strtoul k (drop n bp))) < length bp" (is ?u)
    and v: "length (snd (simple_strtol k (drop n bp))) < length bp" (is ?v)
    if "prefix a bp" "length a = n" "0 < n" for a n
  proof -
    have "n \<le> length bp" using prefix_length_le [OF that(1)] that(2) by simp
    moreover have "length (snd (simple_strtoul k (drop n bp))) \<le> length (drop n bp)"
      "length (snd (simple_strtol k (drop n bp))) \<le> length (drop n bp)"
      using k unfolding parsers_ok_def by blast+
    ultimately show ?u ?v using that(3) by simp_all
  qed
  obtain p where p: "table_period (fst (simple_strtoul k (drop 7 bp))) h = Inr p"
    using table_period_ok [OF t] by blast
  note uv = u [of "''debug:''" 6] u [of "''disconnect:''" 11] u [of "''period:''" 7] u [of "''resync:''" 7]
    u [of "''proc:''" 5] u [of "''nodma:''" 6] u [of "''level2:''" 7] v [of "''burst:''" 6] v [of "''fast:''" 5]
    u [of "''nosync:''" 7]
  show ?thesis
    using w p uv unfolding write_option_def Let_def
    by (auto simp: settled_opts settled_resync split: if_splits prod.splits)
qed


lemma settled_fields:
  assumes "settled h' = settled h"
  shows "sx_table h' = sx_table h" "length (sync_stat h') = length (sync_stat h)"
  using arg_cong [OF assms, of sx_table] arg_cong [OF assms, of "\<lambda>h. length (sync_stat h)"]
  by (simp_all add: settled_def)

lemma write_loop_ok:
  assumes "parsers_ok k" and "sx_ok (sx_table h)"
  shows "\<exists>h'. write_loop k bp h = Some (Inr h') \<and> settled h' = settled h"
  using assms(2)
proof (induction bp arbitrary: h rule: length_induct)
  case (1 bp)
  let ?s = "dropWhile (\<lambda>c. c = CHR '','' \<or> c = CHR '' '') bp"
  show ?case
  proof (cases "bp = []")
    case False
    show ?thesis
    proof (cases "write_option k ?s h")
      case None
      with False show ?thesis by (subst write_loop.simps) simp
    next
      case (Some r)
      then obtain h1 bp1 where r: "r = Inr (h1, bp1)" "length bp1 < length ?s" "settled h1 = settled h"
        using write_option_ok [OF assms(1) "1.prems"] by blast
      then have "length bp1 < length bp" using length_dropWhile_le [of _ bp] by (metis order_less_le_trans)
      moreover have "sx_ok (sx_table h1)" using "1.prems" settled_fields(1) [OF r(3)] by simp
      ultimately obtain h2 where "write_loop k bp1 h1 = Some (Inr h2)" "settled h2 = settled h1"
        using "1.IH" by blast
      then show ?thesis using r(1,3) False Some by (subst write_loop.simps) simp
    qed
  qed (subst write_loop.simps, simp)
qed

section \<open>Initialisation\<close>

text \<open>
  The state \<^verbatim>\<open>wd33c93_init\<close> leads to: \<open>shape\<close> is what the memory it is given must have,
  \<open>quiet n\<close> adds that the first \<open>n\<close> targets are idle, \<open>ready\<close> that the whole driver is.
\<close>

definition shape :: "hostdata \<Rightarrow> bool" where
  "shape h \<longleftrightarrow> wf_host h \<and> sx_ok (sx_table h) \<and> \<not> lock h"

definition quiet :: "nat \<Rightarrow> hostdata \<Rightarrow> bool" where
  "quiet n h \<longleftrightarrow> shape h \<and> dma_bounce_buffer h = 0 \<and> (\<forall>i < n. busy h ! i = 0 \<and> sync_stat h ! i = SS_UNSET)"

definition ready :: "hostdata \<Rightarrow> bool" where
  "ready h \<longleftrightarrow> quiet 8 h \<and> input_Q h = None \<and> disconnected_Q h = None \<and> selecting h = None \<and> connected h = None \<and>
     state h = S_UNCONNECTED \<and> dma h = D_DMA_OFF \<and> incoming_ptr h = 0 \<and> outgoing_len h = 0"

text \<open>Configuration steps work on the host structure only.\<close>

lemma meets_configure:
  assumes "\<And>w. P w \<Longrightarrow> I (hdata w)" and "meets (\<lambda>(h, st). I h) m (\<lambda>_ (h, st). J h)"
    and "\<And>w h. P w \<Longrightarrow> J h \<Longrightarrow> Q (w\<lparr>hdata := h\<rparr>)"
  shows "meets P (configure m st) (\<lambda>_. Q)"
  using assms unfolding meets_def configure_def by (fastforce split: sum.splits)

lemma set_clock_run:
  "\<exists>fs t. set_clock freq (h, st) = Inr ((), (h\<lparr>clock_freq := fs, sx_table := t\<rparr>, st)) \<and> sx_ok t \<and>
     fs = fst (set_clk_freq freq)"
proof -
  obtain fs mhz where c: "set_clk_freq freq = (fs, mhz)" by fastforce
  then have "mhz \<in> set [8, 9, 10, 12, 13, 14, 15, 16, 17, 18, 19, 20]"
    using set_clk_freq_range [of freq] by simp
  then have "(word_of_int mhz :: u32) \<in> {8, 9, 10, 12, 13, 14, 15, 16, 17, 18, 19, 20}" by auto
  from sx_ok_clocks [OF this] obtain t where "calc_sx_table (word_of_int mhz) = Inr t" "sx_ok t" by blast
  with c show ?thesis by (auto simp: set_clock_def on_host_def run_simps)
qed


lemma meets_set_clock:
  assumes "\<And>h fs t. I h \<Longrightarrow> sx_ok t \<Longrightarrow> J (h\<lparr>clock_freq := fs, sx_table := t\<rparr>)"
  shows "meets (\<lambda>(h, st). I h) (set_clock freq) (\<lambda>_ (h, st). J h)"
  unfolding meets_def
proof (intro allI impI)
  fix s :: "hostdata \<times> setup_state" assume "case s of (h, st) \<Rightarrow> I h"
  then show "case set_clock freq s of Inl f \<Rightarrow> f = Waiting | Inr (x, w') \<Rightarrow> (case w' of (h, st) \<Rightarrow> J h)"
    using set_clock_run [of freq "fst s" "snd s"] assms by (cases s) fastforce
qed

lemma meets_on_host: "(\<And>h. I h \<Longrightarrow> J (f h)) \<Longrightarrow> meets (\<lambda>(h, st). I h) (on_host f) (\<lambda>_ (h, st). J h)"
  by (auto simp: meets_def on_host_def run_simps)

lemma meets_ask: "meets (\<lambda>(h, st). I h) (ask k key) (\<lambda>_ (h, st). I h)"
  by (auto simp: meets_def ask_def split: prod.splits)

lemma meets_with_arg:
  "(\<And>val. meets (\<lambda>(h, st). I h) (f val) (\<lambda>_ (h, st). I h)) \<Longrightarrow>
   meets (\<lambda>(h, st). I h) (with_arg k key f) (\<lambda>_ (h, st). I h)"
  unfolding with_arg_def
  by (rule meets_bnd [OF meets_ask]) (auto split: option.splits simp: meets_ret)

lemma meets_set_period:
  assumes "\<And>h. I h \<Longrightarrow> sx_ok (sx_table h)" and "\<And>h p. I h \<Longrightarrow> I (h\<lparr>default_sx_per := p\<rparr>)"
  shows "meets (\<lambda>(h, st). I h) (set_period ns) (\<lambda>_ (h, st). I h)"
proof -
  have "case set_period ns (h, st) of Inl f \<Rightarrow> f = Waiting | Inr (x, h', st') \<Rightarrow> I h'" if "I h" for h st
    using table_period_ok [OF assms(1) [OF that], of ns] assms(2) [OF that]
    by (auto simp: set_period_def on_host_def run_simps)
  then show ?thesis unfolding meets_def by blast
qed

lemma meets_inv_Nil: "meets P (seqs []) (\<lambda>_. P)"
  by (simp add: meets_ret)

lemma meets_inv_Cons: "meets P m (\<lambda>_. P) \<Longrightarrow> meets P (seqs ms) (\<lambda>_. P) \<Longrightarrow> meets P (seqs (m # ms)) (\<lambda>_. P)"
  by (simp add: meets_thn)

text \<open>The command line changes settings only.\<close>

lemma meets_config:
  assumes "\<And>h. I h \<Longrightarrow> sx_ok (sx_table h)"
    and "\<And>h fs t. I h \<Longrightarrow> sx_ok t \<Longrightarrow> I (h\<lparr>clock_freq := fs, sx_table := t\<rparr>)"
    and "\<And>h x. I h \<Longrightarrow> I (h\<lparr>no_sync := x\<rparr>)" "\<And>h x. I h \<Longrightarrow> I (h\<lparr>no_dma := x\<rparr>)"
    and "\<And>h x. I h \<Longrightarrow> I (h\<lparr>default_sx_per := x\<rparr>)" "\<And>h x. I h \<Longrightarrow> I (h\<lparr>disconnect := x\<rparr>)"
    and "\<And>h x. I h \<Longrightarrow> I (h\<lparr>level2 := x\<rparr>)" "\<And>h x. I h \<Longrightarrow> I (h\<lparr>args := x\<rparr>)"
    and "\<And>h x. I h \<Longrightarrow> I (h\<lparr>dma_mode := x\<rparr>)" "\<And>h x. I h \<Longrightarrow> clock_freq h = WD33C93_FS_16_20 \<Longrightarrow> I (h\<lparr>fast := x\<rparr>)"
    and "\<And>h x. I h \<Longrightarrow> I (h\<lparr>proc := x\<rparr>)"
  shows "meets (\<lambda>(h, st). I h) (config_args k) (\<lambda>_ (h, st). I h)"
proof -
  have f: "meets (\<lambda>(h, st). I h) (peek (\<lambda>(h, st). when_do (clock_freq h = WD33C93_FS_16_20)
       (with_arg k ''fast'' (\<lambda>val. on_host (\<lambda>h. h\<lparr>fast := (if val \<noteq> 0 then 1 else 0)\<rparr>))))) (\<lambda>_ (h, st). I h)"
  proof (rule meets_peek)
    fix w :: "hostdata \<times> setup_state" assume w: "case w of (h, st) \<Rightarrow> I h"
    obtain h st where hs: "w = (h, st)" by fastforce
    have fm: "meets (\<lambda>(h, st). I h \<and> clock_freq h = WD33C93_FS_16_20) (with_arg k ''fast'' (\<lambda>val. on_host (\<lambda>h. h\<lparr>fast := (if val \<noteq> 0 then 1 else 0)\<rparr>)))
        (\<lambda>_ (h, st). I h \<and> clock_freq h = WD33C93_FS_16_20)"
      by (intro meets_with_arg meets_on_host) (simp add: assms(10))
    then show "meets (\<lambda>u. u = w) ((\<lambda>(h, st). when_do (clock_freq h = WD33C93_FS_16_20)
       (with_arg k ''fast'' (\<lambda>val. on_host (\<lambda>h. h\<lparr>fast := (if val \<noteq> 0 then 1 else 0)\<rparr>)))) w) (\<lambda>_ (h, st). I h)"
      using w unfolding hs when_do_def
      by (auto intro!: meets_ret intro: meets_pre [OF meets_post [OF fm]])
  qed
  have n: "meets (\<lambda>(h, st). I h) (bnd (ask k ''next'') (\<lambda>r. case r of None \<Rightarrow> ret ()
       | Some (i, val) \<Rightarrow> modify (\<lambda>(h, st). (h, mark_used i st)))) (\<lambda>_ (h, st). I h)"
    by (rule meets_bnd [OF meets_ask]) (auto split: option.splits simp: meets_ret intro!: meets_modify)
  show ?thesis
    unfolding config_args_def
    by (intro meets_inv_Cons meets_inv_Nil meets_with_arg meets_on_host meets_set_clock meets_set_period f n assms)
qed


text \<open>The chip reset can only wait, and leaves fast mode on only for the B revision of the chip.\<close>

lemma only_wait_reset: "only {Waiting} P wait_reset"
proof -
  have "wait_reset w = Inl f \<Longrightarrow> f = Waiting" for w f
  proof (induction w rule: wait_reset.induct)
    case (1 w)
    then show ?case
      by (subst (asm) (2) wait_reset.simps)
        (auto simp: read_aux_stat_run split: list.splits if_splits)
  qed
  then show ?thesis by (auto simp: only_def)
qed

lemma only_any: "only F (\<lambda>_. True) m \<Longrightarrow> only F (\<lambda>_. True) n \<Longrightarrow> only F (\<lambda>_. True) (thn m n)"
  by (rule only_thn) (auto simp: hoare_def)

lemma only_any_bnd: "only F (\<lambda>_. True) m \<Longrightarrow> (\<And>x. only F (\<lambda>_. True) (f x)) \<Longrightarrow> only F (\<lambda>_. True) (bnd m f)"
  by (rule only_bnd [where S = "\<lambda>_ _. True"]) (auto simp: hoare_def)

lemma only_reset: "only {Waiting} (\<lambda>w. sx_ok (sx_table (hdata w))) reset_wd33c93"
  unfolding reset_wd33c93_def
proof (rule only_peek, goal_cases)
  case (1 w)
  then obtain x where x: "calc_sync_xfer (default_sx_per (hdata w) div 4) DEFAULT_SX_OFF 0 (sx_table (hdata w)) = Inr x"
    using calc_sync_xfer_fields by metis
  have d: "only {Waiting} (\<lambda>_. True) (detect_chip sr)" for sr
    unfolding detect_chip_def set_chip_def by (intro only_if only_any only_any_bnd onl) simp_all
  show ?case
    unfolding seqs.simps
    by (rule only_pre [where P = "\<lambda>_. True"], intro only_any only_any_bnd only_lift [OF x] only_peek only_when
        only_wait_reset d onl) simp_all
qed

lemma reset_fast:
  "hoare (\<lambda>_. True) reset_wd33c93 (\<lambda>_ w. fast (hdata w) \<noteq> 0 \<longrightarrow> chip (hdata w) = C_WD33C93B)"
proof -
  let ?Q = "\<lambda>w. fast (hdata w) \<noteq> 0 \<longrightarrow> chip (hdata w) = C_WD33C93B"
  have 1: "hoare (\<lambda>_. True) (peek (\<lambda>w. when_do (chip (hdata w) \<noteq> C_WD33C93B) (mod_hd (\<lambda>h. h\<lparr>fast := 0\<rparr>)))) (\<lambda>_. ?Q)"
    by (auto simp: hoare_def run_simps)
  have 2: "hoare ?Q (write_wd33c93 r v) (\<lambda>_. ?Q)" for r v by (auto simp: hoare_def run_simps)
  have t: "hoare (\<lambda>_. True) n Q \<Longrightarrow> hoare (\<lambda>_. True) (thn m n) Q"
    "(\<And>x. hoare (\<lambda>_. True) (f x) Q) \<Longrightarrow> hoare (\<lambda>_. True) (bnd m' f) Q"
    "(\<And>w. hoare (\<lambda>_. True) (g w) Q) \<Longrightarrow> hoare (\<lambda>_. True) (peek g) Q"
    for m :: "unit drv" and n and m' :: "'a drv" and f g and Q :: "unit \<Rightarrow> world \<Rightarrow> bool"
    unfolding hoare_def thn_run bnd_run peek_run by (fastforce split: sum.splits)+
  show ?thesis
    unfolding reset_wd33c93_def seqs.simps
    by (rule t, rule t, rule t, rule t, rule t, rule t, rule t, rule t, rule t, rule t, rule t)
      (rule hoare_thn [OF 1], rule hoare_thn [OF 2], rule hoare_thn [OF 2], rule hoare_ret, assumption)
qed


text \<open>What initialisation does not touch outside the host structure.\<close>

definition outside :: "world \<Rightarrow> (cptr \<Rightarrow> scsi_cmnd) \<times> (dptr \<Rightarrow> scsi_device) \<times> bool \<times> event list" where
  "outside w = (cmds w, devs w, host_lock w, filter is_done (events w))"

definition around :: "world \<Rightarrow> (hostdata \<Rightarrow> bool) \<Rightarrow> world \<Rightarrow> bool" where
  "around w0 I w \<longleftrightarrow> outside w = outside w0 \<and> I (hdata w)"

lemma meets_at_hd: "(\<And>h. I h \<Longrightarrow> J (f h)) \<Longrightarrow> meets (around w0 I) (mod_hd f) (\<lambda>_. around w0 J)"
  by (simp add: meets_def mod_hd_run around_def outside_def)

lemma meets_at_cfg:
  "meets (\<lambda>(h, st). I h) m (\<lambda>_ (h, st). J h) \<Longrightarrow> meets (around w0 I) (configure m st) (\<lambda>_. around w0 J)"
  by (rule meets_configure [where I = I and J = J]) (auto simp: around_def outside_def)

lemma meets_upto:
  "(\<And>i. i < n \<Longrightarrow> meets (P i) (m i) (\<lambda>_. P (Suc i))) \<Longrightarrow> meets (P 0) (seqs (map m [0..<n])) (\<lambda>_. P n)"
proof (induction n)
  case (Suc n)
  then have "meets (P 0) (seqs (map m [0..<n])) (\<lambda>_. P n)" by simp
  moreover have "meets (P n) (seqs [m n]) (\<lambda>_. P (Suc n))"
    using Suc.prems [of n] by (auto intro!: meets_thn meets_ret)
  ultimately show ?case by (auto simp: seqs_append intro: meets_thn)
qed (simp add: meets_ret)

lemma meets_target:
  assumes "i < 8"
  shows "meets (around w0 (quiet i)) (thn (reset_target i) (init_stats i)) (\<lambda>_. around w0 (quiet (Suc i)))"
  unfolding meets_def
proof (intro allI impI)
  fix w assume w: "around w0 (quiet i) w"
  then obtain v where v: "calc_sync_xfer (DEFAULT_SX_PER div 4) DEFAULT_SX_OFF 0 (sx_table (hdata w)) = Inr v"
    using calc_sync_xfer_fields [of "sx_table (hdata w)" DEFAULT_SX_OFF 0 "DEFAULT_SX_PER div 4"]
    by (auto simp: around_def quiet_def shape_def)
  have "wf_host (hdata w)" using w by (simp add: around_def quiet_def shape_def)
  with w v assms show "case thn (reset_target i) (init_stats i) w of Inl f \<Rightarrow> f = Waiting | Inr (x, w') \<Rightarrow> around w0 (quiet (Suc i)) w'"
    by (auto simp: reset_target_def init_stats_def run_simps wf_host_def around_def outside_def quiet_def shape_def
        nth_list_update less_Suc_eq)
qed

lemma outside_reset:
  assumes "reset_free w' = reset_free w"
  shows "outside w' = outside w"
  by (simp add: outside_def reset_free_eqD [OF assms])

lemma ready_reset:
  assumes "reset_free w' = reset_free w" and "ready (hdata w)"
  shows "ready (hdata w')"
proof -
  note e = reset_free_eqD(1) [OF assms(1)]
  have "wf_host (hdata w') = wf_host (hdata w)" "dma_bounce_buffer (hdata w') = dma_bounce_buffer (hdata w)"
    using arg_cong [OF e, of wf_host] arg_cong [OF e, of dma_bounce_buffer] by (simp_all add: wf_host_def)
  with assms(2) show ?thesis
    by (simp add: ready_def quiet_def shape_def reset_free_hd [OF assms(1)])
qed

lemma reset_free_unlock:
  "reset_free (w\<lparr>hdata := (hdata w)\<lparr>lock := b\<rparr>\<rparr>) = (reset_free w)\<lparr>hdata := (hdata (reset_free w))\<lparr>lock := b\<rparr>\<rparr>"
  by (cases "hdata w") (simp add: reset_free_def io_free_def)

definition locked :: "hostdata \<Rightarrow> bool" where
  "locked h \<longleftrightarrow> ready (h\<lparr>lock := False\<rparr>) \<and> lock h"

lemma meets_locked_reset:
  "meets (around w locked) reset_wd33c93 (\<lambda>_. around w (\<lambda>h. locked h \<and> (fast h \<noteq> 0 \<longrightarrow> chip h = C_WD33C93B)))"
  unfolding meets_def
proof (intro allI impI)
  fix u assume u: "around w locked u"
  show "case reset_wd33c93 u of Inl f \<Rightarrow> f = Waiting | Inr (x, w') \<Rightarrow> around w (\<lambda>h. locked h \<and> (fast h \<noteq> 0 \<longrightarrow> chip h = C_WD33C93B)) w'"
  proof (cases "reset_wd33c93 u")
    case (Inl f)
    then have "f \<in> {Waiting}"
      by (rule onlyD [OF only_reset]) (use u in \<open>simp add: around_def locked_def ready_def quiet_def shape_def\<close>)
    then show ?thesis using Inl by simp
  next
    case (Inr r)
    then obtain w' where r: "reset_wd33c93 u = Inr ((), w')" by (cases r) auto
    have k: "reset_free w' = reset_free u" using keepsD [OF keeps_reset r] .
    have "ready ((hdata w')\<lparr>lock := False\<rparr>)"
    proof -
      have "reset_free (w'\<lparr>hdata := (hdata w')\<lparr>lock := False\<rparr>\<rparr>) = reset_free (u\<lparr>hdata := (hdata u)\<lparr>lock := False\<rparr>\<rparr>)"
        unfolding reset_free_unlock k ..
      from ready_reset [OF this] u show ?thesis by (simp add: around_def locked_def)
    qed
    moreover have "lock (hdata w')" using u by (simp add: around_def locked_def reset_free_hd [OF k])
    moreover have "(fast (hdata w') \<noteq> 0 \<longrightarrow> chip (hdata w') = C_WD33C93B)" using hoareD [OF reset_fast r] by simp
    ultimately show ?thesis using u outside_reset [OF k] r by (simp add: around_def locked_def)
  qed
qed

lemma init_ready:
  assumes str: "\<And>s. strs = Some s \<Longrightarrow> NUL \<notin> set s" and len: "length (setup_args st) = MAX_SETUP_ARGS"
    and w: "wf_host (hdata w)" "\<not> lock (hdata w)"
  shows "meets (\<lambda>u. u = w) (wd33c93_init e strs freq st)
    (\<lambda>_. around w (\<lambda>h. ready h \<and> (fast h \<noteq> 0 \<longrightarrow> chip h = C_WD33C93B)))"
proof -
  obtain st1 where st1: "(if \<not> done_setup st \<and> strs \<noteq> None then wd33c93_setup strs st else Inr st) = Inr st1"
    using setup_members [OF str len] by (cases strs; cases "done_setup st") auto
  have wf: "wf_host (h\<lparr>clock_freq := fs, sx_table := t\<rparr>)" if "wf_host h" "sx_ok t" for h fs t
    using that sx_okD(1) [OF that(2)] by (simp add: wf_host_def)
  have clk: "meets (around w (\<lambda>h. wf_host h \<and> \<not> lock h)) (configure (set_clock freq) st1) (\<lambda>_. around w shape)"
    by (intro meets_at_cfg meets_set_clock) (use wf in \<open>auto simp: shape_def\<close>)
  have clk': "meets (\<lambda>u. st' = st1 \<and> u = w) (configure (set_clock freq) st') (\<lambda>_. around w shape)" for st'
    using meets_pre [OF clk, of "\<lambda>u. u = w"] w by (auto simp: around_def locked_def meets_def)
  have loop: "meets (around w (quiet 0)) (seqs (map (\<lambda>i. thn (reset_target i) (init_stats i)) [0..<8])) (\<lambda>_. around w (quiet 8))"
    by (intro meets_upto meets_target)
  have bb: "meets (around w shape) (mod_hd (\<lambda>h. h\<lparr>dma_bounce_buffer := 0, dma_bounce_len := 0\<rparr>))
      (\<lambda>_. around w (quiet 0))"
    by (rule meets_at_hd) (simp add: shape_def quiet_def wf_host_def)
  have dflt: "meets (around w (quiet 8)) init_defaults (\<lambda>_. around w ready)"
    unfolding init_defaults_def clear_host_def
    by (intro meets_thn [OF meets_at_hd [where J = ready]] meets_at_hd)
      (simp_all add: ready_def quiet_def shape_def wf_host_def)
  have cfg: "meets (around w ready) (configure (config_args e) st) (\<lambda>_. around w ready)" for st
    by (intro meets_at_cfg meets_config) (use wf in \<open>auto simp: ready_def quiet_def shape_def wf_host_def\<close>)
  let ?Q = "\<lambda>h. fast h \<noteq> 0 \<longrightarrow> chip h = C_WD33C93B"
  have lock: "meets (around w ready) spin_lock (\<lambda>_. around w locked)"
    by (auto simp: meets_def spin_lock_def run_simps around_def locked_def outside_def ready_def quiet_def shape_def wf_host_def)
  have unl: "meets (around w (\<lambda>h. locked h \<and> ?Q h)) spin_unlock (\<lambda>_. around w (\<lambda>h. ready h \<and> ?Q h))"
    by (auto simp: meets_def spin_unlock_def run_simps around_def locked_def outside_def ready_def quiet_def shape_def wf_host_def)
  show ?thesis
    unfolding wd33c93_init_def
    by (rule meets_bnd [where S = "\<lambda>st u. st = st1 \<and> u = w"], rule meets_lift, rule exI [of _ st1],
        intro conjI, rule st1, rule refl, assumption,
        rule meets_bnd [where S = "\<lambda>_. around w shape"], rule meets_pre [OF clk'], assumption,
        rule meets_thn [OF bb], rule meets_thn [OF loop], rule meets_thn [OF dflt],
        rule meets_bnd [OF cfg], rule meets_thn [where S = "around w (\<lambda>h. ready h \<and> ?Q h)"],
        simp only: seqs.simps, rule meets_thn [OF lock], rule meets_thn [OF meets_locked_reset], rule meets_thn [OF unl],
        rule meets_ret, assumption, rule meets_ret, assumption)
qed

section \<open>The transfer registers after initialisation\<close>

abbreviation xfer :: "world \<Rightarrow> u8 list" where
  "xfer w \<equiv> sync_xfer (hdata w)"

lemma keeps_reset_xfer: "keeps xfer reset_wd33c93"
  by (rule keepsI) (rule reset_free_hd, rule keepsD [OF keeps_reset])

lemma keeps_config_xfer: "keeps (sync_xfer \<circ> fst) (config_args k)"
proof -
  have host: "keeps (sync_xfer \<circ> fst) (on_host f)" if "\<And>h. sync_xfer (f h) = sync_xfer h" for f
    using that unfolding on_host_def by (intro keeps_modify) (auto split: prod.splits)
  have ask: "keeps (sync_xfer \<circ> fst) (ask k key)" for key
    by (auto simp: keeps_def ask_def split: prod.splits)
  have mark: "keeps (sync_xfer \<circ> fst) (modify (\<lambda>(h, st). (h, mark_used i st)))" for i
    by (intro keeps_modify) auto
  have arg: "keeps (sync_xfer \<circ> fst) (with_arg k key f)" if "\<And>v. keeps (sync_xfer \<circ> fst) (f v)" for key f
    unfolding with_arg_def by (intro keeps_bnd ask keeps_option keeps_prod keeps_ret that)
  have clock: "keeps (sync_xfer \<circ> fst) (set_clock v)" for v
    unfolding set_clock_def by (intro keeps_prod keeps_bnd keeps_lift host) simp
  have period: "keeps (sync_xfer \<circ> fst) (set_period v)" for v
    unfolding set_period_def by (intro keeps_peek keeps_prod keeps_bnd keeps_lift host) simp
  show ?thesis
    unfolding config_args_def
    by (intro keeps_seqs_Nil keeps_seqs_Cons arg clock period host keeps_peek keeps_prod keeps_when keeps_bnd ask
        keeps_option keeps_ret mark) simp_all
qed

lemma keeps_configure_xfer: "keeps (sync_xfer \<circ> fst) m \<Longrightarrow> keeps xfer (configure m st)"
  by (auto simp: keeps_def configure_def split: sum.splits)

lemma targets_xfer:
  assumes "seqs (map (\<lambda>i. thn (reset_target i) (init_stats i)) [0..<n]) w = Inr ((), w')"
  shows "sx_table (hdata w') = sx_table (hdata w) \<and> length (xfer w') = length (xfer w) \<and> n \<le> length (xfer w) \<and>
    (\<forall>j < n. calc_sync_xfer (DEFAULT_SX_PER div 4) DEFAULT_SX_OFF 0 (sx_table (hdata w)) = Inr (xfer w' ! j))"
  using assms
proof (induction n arbitrary: w')
  case (Suc n)
  then obtain w1 where l: "seqs (map (\<lambda>i. thn (reset_target i) (init_stats i)) [0..<n]) w = Inr ((), w1)"
    and s: "thn (reset_target n) (init_stats n) w1 = Inr ((), w')"
    by (auto simp: seqs_append thn_run [of _ "ret ()"] ret_run split: sum.splits elim!: thn_InrE [of "seqs _"])
  from s have "sx_table (hdata w') = sx_table (hdata w1) \<and> n < length (xfer w1) \<and>
    (\<exists>x. calc_sync_xfer (DEFAULT_SX_PER div 4) DEFAULT_SX_OFF 0 (sx_table (hdata w1)) = Inr x \<and> xfer w' = (xfer w1)[n := x])"
    by (auto simp: reset_target_def init_stats_def run_simps split: sum.splits if_splits)
  with Suc.IH [OF l] show ?case by (auto simp: less_Suc_eq nth_list_update)
qed (simp add: run_simps)

section \<open>Properties\<close>

text \<open>A member that begins with a digit; the comments speak of a treatment of these that the code does not give them.\<close>

definition numeric :: "string \<Rightarrow> bool" where
  "numeric m \<longleftrightarrow> (case m of [] \<Rightarrow> False | c # _ \<Rightarrow> CHR ''0'' \<le> c \<and> c \<le> CHR ''9'')"

text \<open>
  C21. The command line, for a text without numeric members. \<^verbatim>\<open>wd33c93_setup\<close> cuts the text in place
  and never leaves its buffer; the arguments it sets up are those of the reference splitting: the
  \<open>n\<close>th member of the first 199 characters, cut at commas, becomes the \<open>n\<close>th argument, and a blank
  or missing member leaves the compiled-in argument alone. All arguments become unused.
\<close>
theorem setup_equals_members:
  assumes "NUL \<notin> set s" and "length (setup_args st) = MAX_SETUP_ARGS"
    and "\<forall>j < MAX_SETUP_ARGS. \<exists>l. setup_args st ! j = Lit l" and "\<forall>m \<in> set (members s). \<not> numeric m"
  shows "\<exists>st'. wd33c93_setup (Some s) st = Inr st' \<and> done_setup st' \<and>
    setup_used st' = replicate MAX_SETUP_ARGS False \<and>
    (\<forall>j < MAX_SETUP_ARGS. the_arg st' j =
       (let ms = members (take 199 s)
        in if j < length ms \<and> ms ! j \<noteq> [] then ms ! j else the_arg st j))"
proof -
  obtain st' where st': "wd33c93_setup (Some s) st = Inr st'" "done_setup st'"
      "setup_used st' = replicate MAX_SETUP_ARGS False"
      "given (members (take 199 s)) 0 (setup_args st) (setup_args st') (setup_buffer st')"
    using setup_members [OF assms(1,2)] by blast
  have "the_arg st' j = (let ms = members (take 199 s) in if j < length ms \<and> ms ! j \<noteq> [] then ms ! j else the_arg st j)"
    if "j < MAX_SETUP_ARGS" for j
  proof -
    obtain l where "setup_args st ! j = Lit l" using assms(3) \<open>j < _\<close> by blast
    moreover have "if j < length (members (take 199 s)) \<and> members (take 199 s) ! j \<noteq> []
        then \<exists>q. setup_args st' ! j = Off q \<and> c_str q (setup_buffer st') = members (take 199 s) ! j
        else setup_args st' ! j = setup_args st ! j"
      using st'(4) assms(2) \<open>j < _\<close> unfolding given_def by (metis diff_zero zero_le)
    ultimately show ?thesis by (auto simp: the_arg_def arg_str_def Let_def split: if_splits)
  qed
  with st' show ?thesis by blast
qed

theorem setup_equals_members_witness:
  "\<exists>st'. wd33c93_setup (Some ''nodma,,period:250'') setup_init = Inr st' \<and>
     the_arg st' 0 = ''nodma'' \<and> the_arg st' 1 = [] \<and> the_arg st' 2 = ''period:250'' \<and> the_arg st' 3 = []"
proof -
  have i: "the_arg setup_init j = []" if "j < 10" for j
    using that by (simp add: the_arg_def arg_str_def setup_init_def)
  have m: "members (take 199 ''nodma,,period:250'') = [''nodma'', [], ''period:250'']" by code_simp
  have n: "\<forall>m \<in> set (members ''nodma,,period:250''). \<not> numeric m" by code_simp
  obtain st' where "wd33c93_setup (Some ''nodma,,period:250'') setup_init = Inr st'"
    "\<forall>j < MAX_SETUP_ARGS. the_arg st' j = (let ms = [''nodma'', [], ''period:250'']
        in if j < length ms \<and> ms ! j \<noteq> [] then ms ! j else the_arg setup_init j)"
    using setup_equals_members [of "''nodma,,period:250''" setup_init] n unfolding m
    by (auto simp: setup_init_def)
  then show ?thesis using i by (intro exI [of _ st']) simp
qed

text \<open>
  C22. Keyword lookup. For a keyword that \<open>next\<close> neither begins nor is begun by, \<^verbatim>\<open>check_setup_args\<close>
  finds the first unused argument before the next \<open>next\<close> that starts with the keyword, returns its
  index plus one and the number after the colon (-1 when there is none), and marks exactly that
  argument as used; it finds nothing, and changes nothing, when there is no such argument.
\<close>
theorem keyword_lookup:
  assumes "\<not> prefix key ''next''" and "\<not> prefix ''next'' key"
  shows "check_setup_args k key st =
    (case List.find (\<lambda>x. prefix key (the_arg st x)) (visible st) of
       None \<Rightarrow> (None, st)
     | Some x \<Rightarrow> (Some (x + 1, arg_val k (drop (length key) (the_arg st x))),
                  st\<lparr>setup_used := (setup_used st)[x := True]\<rparr>))"
  by (simp add: check_setup_args_def scan_args_visible [OF assms] visible_def split: option.split)

theorem keyword_lookup_witness:
  "check_setup_args sample_kernel ''period'' (setup_init\<lparr>setup_args := (setup_args setup_init)[4 := Lit ''period:250'']\<rparr>) =
    (Some (5, 250), (setup_init\<lparr>setup_args := (setup_args setup_init)[4 := Lit ''period:250'']\<rparr>)
       \<lparr>setup_used := (setup_used setup_init)[4 := True]\<rparr>)"
proof -
  let ?st = "setup_init\<lparr>setup_args := (setup_args setup_init)[4 := Lit ''period:250'']\<rparr>"
  have f: "List.find (\<lambda>x. prefix ''period'' (the_arg ?st x)) (visible ?st) = Some 4" by code_simp
  have v: "arg_val sample_kernel (drop (length ''period'') (the_arg ?st 4)) = 250" by code_simp
  have p: "\<not> prefix ''period'' ''next''" "\<not> prefix ''next'' ''period''" by code_simp+
  show ?thesis unfolding keyword_lookup [OF p, of sample_kernel ?st] f option.case v by simp
qed

text \<open>
  C12. Initialisation. Given host memory with the arrays of its type and any command line,
  \<^verbatim>\<open>wd33c93_init\<close> can only wait for the chip's reset interrupt; otherwise it returns with the driver
  idle: a represented state without commands, unlocked, a well-formed period table, no bounce
  buffer, every target to be negotiated, and fast mode off unless the chip is a WD33C93B. Nothing
  outside the host structure changes but the log.
\<close>
theorem init_idle:
  assumes "\<And>s. strs = Some s \<Longrightarrow> NUL \<notin> set s" and "length (setup_args st) = MAX_SETUP_ARGS"
    and "wf_host (hdata w)" and "\<not> lock (hdata w)" and "filter is_done (events w) = []"
  shows "case wd33c93_init e strs freq st w of
      Inl f \<Rightarrow> f = Waiting
    | Inr (_, w') \<Rightarrow> REP (addr_of w) (idle_view []) w' \<and> ready (hdata w') \<and>
        (fast (hdata w') \<noteq> 0 \<longrightarrow> chip (hdata w') = C_WD33C93B) \<and> cmds w' = cmds w \<and> devs w' = devs w"
proof -
  have r: "case wd33c93_init e strs freq st w of Inl f \<Rightarrow> f = Waiting
    | Inr (_, w') \<Rightarrow> around w (\<lambda>h. ready h \<and> (fast h \<noteq> 0 \<longrightarrow> chip h = C_WD33C93B)) w'"
    using init_ready [of strs st w e freq] assms(1-4) unfolding meets_def by blast
  have "REP (addr_of w) (idle_view []) w'" if "around w ready w'" for w'
  proof -
    have "addr_of w' = addr_of w" using that by (simp add: around_def outside_def addr_of_def fun_eq_iff)
    moreover have "REP (addr_of w') (idle_view []) w'"
      by (rule REP_idle) (use that assms(5) in \<open>simp_all add: around_def outside_def ready_def quiet_def shape_def wf_host_def\<close>)
    ultimately show ?thesis by simp
  qed
  with r show ?thesis by (auto simp: around_def outside_def split: sum.splits)
qed

lemma sample_init: "succeeds (\<lambda>_. True) (wd33c93_init (a3000_env sample_kernel) (Some ''clock:20'') (uint WD33C93_FS_12_15) setup_init)
    (sample_world\<lparr>wd_in := [ASR_INT, 0, 0]\<rparr>)"
  by code_simp

theorem init_idle_witness:
  "\<exists>st w'. wd33c93_init (a3000_env sample_kernel) (Some ''clock:20'') (uint WD33C93_FS_12_15) setup_init
      (sample_world\<lparr>wd_in := [ASR_INT, 0, 0]\<rparr>) = Inr (st, w') \<and>
    REP (addr_of sample_world) (idle_view []) w' \<and> ready (hdata w')"
proof -
  let ?w = "sample_world\<lparr>wd_in := [ASR_INT, 0, 0]\<rparr>"
  obtain st w' where m: "wd33c93_init (a3000_env sample_kernel) (Some ''clock:20'') (uint WD33C93_FS_12_15) setup_init ?w = Inr (st, w')"
    using succeedsD [OF sample_init] by blast
  have "wf_host (hdata ?w)" "\<not> lock (hdata ?w)" "filter is_done (events ?w) = []" "addr_of ?w = addr_of sample_world"
    by (simp_all add: wf_host_def sample_world_def sample_host_def sample_table_def addr_of_def fun_eq_iff)
  with init_idle [of "Some ''clock:20''" setup_init ?w "a3000_env sample_kernel" "uint WD33C93_FS_12_15"] m
  show ?thesis by (auto simp: setup_init_def)
qed

text \<open>
  C38. The \<open>clock\<close> argument comes too late for the transfer registers: whatever the command line says,
  initialisation leaves in each target's register the value computed from the period table of the
  clock the host adapter passed, even when the argument has replaced that table since.
\<close>
theorem clock_argument_stale:
  assumes "wd33c93_init e strs freq st w = Inr (st', w')" and "length (sync_xfer (hdata w)) = 8"
  shows "\<exists>t x. calc_sx_table (word_of_int (snd (set_clk_freq freq))) = Inr t \<and>
    calc_sync_xfer (DEFAULT_SX_PER div 4) DEFAULT_SX_OFF 0 t = Inr x \<and> sync_xfer (hdata w') = replicate 8 x"
proof -
  let ?loop = "seqs (map (\<lambda>i. thn (reset_target i) (init_stats i)) [0..<8])"
  let ?rest = "\<lambda>st. thn init_defaults (bnd (configure (config_args e) st) (\<lambda>st.
      thn (seqs [spin_lock, reset_wd33c93, spin_unlock]) (ret st)))"
  from assms(1) obtain st1 where "bnd (configure (set_clock freq) st1) (\<lambda>st.
      thn (mod_hd (\<lambda>h. h\<lparr>dma_bounce_buffer := 0, dma_bounce_len := 0\<rparr>)) (thn ?loop (?rest st))) w = Inr (st', w')"
    unfolding wd33c93_init_def by (rule bnd_InrE) (auto simp: lift_run split: sum.splits)
  then obtain st2 w1 where c: "configure (set_clock freq) st1 w = Inr (st2, w1)"
    and "thn (mod_hd (\<lambda>h. h\<lparr>dma_bounce_buffer := 0, dma_bounce_len := 0\<rparr>)) (thn ?loop (?rest st2)) w1 = Inr (st', w')"
    by (rule bnd_InrE)
  then obtain w2 where r: "?loop (w1\<lparr>hdata := (hdata w1)\<lparr>dma_bounce_buffer := 0, dma_bounce_len := 0\<rparr>\<rparr>) = Inr ((), w2)"
    and f: "?rest st2 w2 = Inr (st', w')"
    by (auto simp: thn_run [of "mod_hd _"] mod_hd_run elim: thn_InrE)
  from c obtain t where t: "calc_sx_table (word_of_int (snd (set_clk_freq freq))) = Inr t"
    "sx_table (hdata w1) = t" "xfer w1 = xfer w"
    by (auto simp: configure_def set_clock_def on_host_def run_simps split: sum.splits prod.splits)
  have "keeps xfer (?rest st2)"
    unfolding init_defaults_def clear_host_def spin_lock_def spin_unlock_def
    by (intro keeps_thn keeps_bnd keeps_configure_xfer keeps_config_xfer keeps_seqs_Nil keeps_seqs_Cons keeps_reset_xfer
        keeps_ret keeps_peek keeps_if keeps_throw keeps_mod_hd) simp_all
  from keepsD [OF this f] have e: "xfer w' = xfer w2" .
  have x: "\<forall>j < 8. calc_sync_xfer (DEFAULT_SX_PER div 4) DEFAULT_SX_OFF 0 t = Inr (xfer w2 ! j)"
    and l: "length (xfer w2) = 8"
    using targets_xfer [OF r] t assms(2) by simp_all
  have x0: "calc_sync_xfer (DEFAULT_SX_PER div 4) DEFAULT_SX_OFF 0 t = Inr (xfer w2 ! 0)" using x by simp
  have "y = xfer w2 ! 0" if m: "y \<in> set (xfer w2)" for y
  proof -
    obtain i where "i < 8" and "y = xfer w2 ! i" using m l by (auto simp: in_set_conv_nth)
    with x x0 show ?thesis by (metis sum.inject(2))
  qed
  then have "xfer w2 = replicate 8 (xfer w2 ! 0)" by (intro replicate_eqI l)
  with e have "xfer w' = replicate 8 (xfer w2 ! 0)" by (rule trans)
  with t(1) x0 show ?thesis by blast
qed

text \<open>At 20 MHz the registers hold a 300 ns period where the same default asks for 400 ns.\<close>

lemma sample_clock: "case wd33c93_init (a3000_env sample_kernel) (Some ''clock:20'') (uint WD33C93_FS_12_15) setup_init
      (sample_world\<lparr>wd_in := [ASR_INT, 0, 0]\<rparr>) of
     Inl _ \<Rightarrow> False
   | Inr (_, w) \<Rightarrow> clock_freq (hdata w) = WD33C93_FS_16_20 \<and>
       calc_sync_xfer (DEFAULT_SX_PER div 4) DEFAULT_SX_OFF 0 (sx_table (hdata w)) = Inr 0x40"
  by code_simp

theorem clock_argument_stale_witness:
  "\<exists>st w. wd33c93_init (a3000_env sample_kernel) (Some ''clock:20'') (uint WD33C93_FS_12_15) setup_init
      (sample_world\<lparr>wd_in := [ASR_INT, 0, 0]\<rparr>) = Inr (st, w) \<and> sync_xfer (hdata w) = replicate 8 0x30 \<and>
     calc_sync_xfer (DEFAULT_SX_PER div 4) DEFAULT_SX_OFF 0 (sx_table (hdata w)) = Inr 0x40"
proof -
  obtain st w where m: "wd33c93_init (a3000_env sample_kernel) (Some ''clock:20'') (uint WD33C93_FS_12_15) setup_init
      (sample_world\<lparr>wd_in := [ASR_INT, 0, 0]\<rparr>) = Inr (st, w)"
    and s: "calc_sync_xfer (DEFAULT_SX_PER div 4) DEFAULT_SX_OFF 0 (sx_table (hdata w)) = Inr 0x40"
    using sample_clock by (auto split: sum.splits)
  have "case calc_sx_table (word_of_int (snd (set_clk_freq (uint WD33C93_FS_12_15)))) of
      Inl _ \<Rightarrow> False | Inr t \<Rightarrow> calc_sync_xfer (DEFAULT_SX_PER div 4) DEFAULT_SX_OFF 0 t = Inr 0x30"
    by code_simp
  with clock_argument_stale [OF m] s m show ?thesis by (force simp: sample_world_def sample_host_def)
qed

text \<open>
  C30. Writing to the proc file always returns: provided the kernel's number parsers never give back
  more text than they were given, every turn of the loop of \<^verbatim>\<open>wd33c93_write_info\<close> uses up its
  keyword; no period is looked up outside the table, the call reports the whole length as written,
  and only settings and the negotiation states change.
\<close>
theorem write_info_returns:
  assumes "parsers_ok k" and "sx_ok (sx_table h)"
  shows "\<exists>h'. wd33c93_write_info k buf len h = Some (Inr (h', len)) \<and> settled h' = settled h"
proof -
  obtain h' where "write_loop k (takeWhile (\<lambda>c. c \<noteq> NUL) (take len buf)) h = Some (Inr h')" "settled h' = settled h"
    using write_loop_ok [OF assms] by blast
  then show ?thesis by (simp add: wd33c93_write_info_def)
qed

theorem write_info_returns_witness:
  "\<exists>h'. wd33c93_write_info sample_kernel ''debug:3 period:250'' 19 sample_host = Some (Inr (h', 19)) \<and>
     sx_table h' = sample_table"
proof -
  have "parsers_ok sample_kernel" by (simp add: parsers_ok_def sample_kernel_def length_dropWhile_le)
  moreover have "sx_ok (sx_table sample_host)" by code_simp
  ultimately obtain h' where "wd33c93_write_info sample_kernel ''debug:3 period:250'' 19 sample_host = Some (Inr (h', 19))"
    "settled h' = settled sample_host" using write_info_returns by blast
  moreover have "sx_table sample_host = sample_table" by (simp add: sample_host_def)
  ultimately show ?thesis using settled_fields(1) by metis
qed

end
