(* ===== verification/Probe.thy ===== *)
theory Probe
  imports Startup
begin

text \<open>
  Claiming and releasing the adapter (\<^verbatim>\<open>amiga_a3000_scsi_probe\<close> and \<^verbatim>\<open>amiga_a3000_scsi_remove\<close>
  of \<^verbatim>\<open>a3000.c\<close>): the claims on the kernel's resources form a stack, and the driver is ready for
  commands when the adapter is bound.
\<close>

section \<open>The stack of claims\<close>

fun claims :: "event \<Rightarrow> bool" where
  "claims Request_region = True"
| "claims Host_alloc = True"
| "claims Request_irq = True"
| "claims Add_host = True"
| "claims _ = False"

fun undoes :: "event \<Rightarrow> event option" where
  "undoes Release_region = Some Request_region"
| "undoes Host_put = Some Host_alloc"
| "undoes Free_irq = Some Request_irq"
| "undoes Remove_host = Some Add_host"
| "undoes _ = None"

text \<open>The claims held after an event, the latest first; \<open>None\<close> when a claim is released that is not the latest.\<close>

definition hold :: "event list option \<Rightarrow> event \<Rightarrow> event list option" where
  "hold s ev = (case undoes ev of
      Some c \<Rightarrow> (case s of Some (d # ds) \<Rightarrow> if d = c then Some ds else None | _ \<Rightarrow> None)
    | None \<Rightarrow> if claims ev then map_option (Cons ev) s else s)"

definition held :: "world \<Rightarrow> event list option" where
  "held w = foldl hold (Some []) (events w)"

lemma held_snoc: "events w' = events w @ [ev] \<Longrightarrow> held w' = hold (held w) ev"
  by (simp add: held_def)

lemma held_frame [simp]: "held (w\<lparr>hdata := h\<rparr>) = held w" "held (w\<lparr>wd_in := i\<rparr>) = held w"
  "held (w\<lparr>hdata := h, this_id := t\<rparr>) = held w" "held (w\<lparr>this_id := t\<rparr>) = held w"
  "held (w\<lparr>events := events w @ [ev]\<rparr>) = hold (held w) ev"
  by (simp_all add: held_def)

text \<open>Register access claims nothing.\<close>

named_theorems hk "a program leaves the claims alone"

lemmas [hk] = keeps_ret keeps_bnd keeps_thn keeps_peek keeps_if keeps_when keeps_lift keeps_arr_ok
  keeps_seqs_Nil keeps_seqs_Cons

lemma held_io [hk]: "keeps held (write_wd33c93 r v)" "keeps held (read_wd33c93 r)" "keeps held (wr_reg sr x)"
  "keeps held read_aux_stat"
  by (auto simp: keeps_def wr_reg_def run_simps held_def hold_def split: list.splits)

lemma held_hd [hk]: "keeps held (mod_hd f)"
  by (rule keeps_mod_hd) simp

lemma held_locks [hk]: "keeps held spin_lock" "keeps held spin_unlock"
  unfolding spin_lock_def spin_unlock_def by (intro hk keeps_throw)+

lemma held_wait_reset [hk]: "keeps held wait_reset"
proof (rule keepsI)
  fix w x w'
  show "wait_reset w = Inr (x, w') \<Longrightarrow> held w' = held w"
  proof (induction w arbitrary: x w' rule: wait_reset.induct)
    case (1 w)
    show ?case
      using "1.prems" "1.IH" by (subst (asm) wait_reset.simps)
        (auto split: sum.splits if_splits prod.splits dest!: keepsD [OF held_io(4)])
  qed
qed

lemma held_configure [hk]: "keeps held (configure m st)"
  by (auto simp: keeps_def configure_def split: sum.splits)

lemma held_init: "keeps held (wd33c93_init e strs freq st)"
proof -
  have "keeps held (thn (reset_target i) (init_stats i))" for i
    unfolding reset_target_def init_stats_def by (intro hk)
  then have "keeps held (seqs (map (\<lambda>i. thn (reset_target i) (init_stats i)) [0..<8]))"
    by (intro keeps_seqs) auto
  then show ?thesis
    unfolding wd33c93_init_def reset_wd33c93_def detect_chip_def set_chip_def init_defaults_def clear_host_def
    by (intro hk)
qed

section \<open>The outcome of probing\<close>

definition all_claims :: "event list" where
  "all_claims = [Add_host, Request_irq, Host_alloc, Request_region]"

lemma fail_runs:
  "fail_alloc r w = Inr (r, w\<lparr>events := events w @ [Release_region]\<rparr>)"
  "fail_irq r w = Inr (r, w\<lparr>events := events w @ [Host_put, Release_region]\<rparr>)"
  "fail_host r w = Inr (r, w\<lparr>events := events w @ [Free_irq, Host_put, Release_region]\<rparr>)"
  by (simp_all add: fail_alloc_def fail_irq_def fail_host_def run_simps)

text \<open>What claiming the interrupt adds to the log.\<close>

lemma claim_irq_run:
  "\<exists>evs r. claim_irq p w = Inr (r, w\<lparr>events := events w @ evs\<rparr>) \<and> (r = Bound \<longleftrightarrow> irq_error p = 0 \<and> host_error p = 0) \<and>
     (\<exists>pre. evs = pre @ [Wr_reg CNTR (ucast (CNTR_PDMD OR CNTR_INTEN)), Add_host, Scan_host] \<or> r \<noteq> Bound) \<and>
     foldl hold (Some (Host_alloc # Request_region # s)) evs =
       (if r = Bound then Some (all_claims @ s) else Some s)"
  by (auto simp: claim_irq_def run_simps fail_runs wr_reg_def hold_def all_claims_def)

text \<open>The world in which a probe with host memory \<open>h\<close> starts the initialisation.\<close>

definition allocated :: "hostdata \<Rightarrow> world \<Rightarrow> world" where
  "allocated h w = w\<lparr>this_id := 7, events := events w @ [Request_region, Host_alloc, Wr_reg DAWR (ucast DAWR_A3000)],
     hdata := h\<lparr>no_sync := 0xff, fast := 0, dma_mode := CTRL_DMA\<rparr>\<rparr>"

lemma probe_cases:
  assumes "amiga_a3000_scsi_probe p k strs st w = Inr ((r, st'), w')"
  obtains (nothing) "r = ENODEV \<or> r = EBUSY" and "w' = w"
  | (memory) "r = ENOMEM" and "w' = w\<lparr>events := events w @ [Request_region, Release_region]\<rparr>"
  | (host) h w1 where "host_memory p = Some h" and "claim_irq p w1 = Inr (r, w')"
      and "wd33c93_init (a3000_env k) strs (uint WD33C93_FS_12_15) st (allocated h w) = Inr (st', w1)"
proof (cases "has_resource p \<and> region_free p")
  case False
  then show thesis using assms by - (rule nothing, auto simp: amiga_a3000_scsi_probe_def run_simps split: if_splits)
next
  case True
  show thesis
  proof (cases "host_memory p")
    case None
    with True show thesis using assms by - (rule memory, auto simp: amiga_a3000_scsi_probe_def run_simps fail_runs)
  next
    case (Some h)
    with True assms obtain w1 where "wd33c93_init (a3000_env k) strs (uint WD33C93_FS_12_15) st (allocated h w) = Inr (st', w1)"
      and "claim_irq p w1 = Inr (r, w')"
      by (auto simp: amiga_a3000_scsi_probe_def scsi_host_alloc_def allocated_def
          amiga_a3000_scsi_template_def wr_reg_def run_simps split: sum.splits)
    with Some host show thesis by blast
  qed
qed

lemma claim_irq_frame: "claim_irq p w = Inr (r, w') \<Longrightarrow> hdata w' = hdata w \<and> cmds w' = cmds w \<and> devs w' = devs w \<and>
    filter is_done (events w') = filter is_done (events w)"
  by (auto simp: claim_irq_def run_simps fail_runs wr_reg_def split: if_splits)

section \<open>Properties\<close>

text \<open>
  C14. Probing balances its claims: when it fails, whatever fails, every resource claimed on the way
  has been released, in reverse order; when it succeeds exactly the memory region, the host, the
  interrupt and the host's registration are held.
\<close>
theorem probe_balances_claims:
  assumes "held w = Some s" and "amiga_a3000_scsi_probe p k strs st w = Inr ((r, st'), w')"
  shows "held w' = Some (if r = Bound then all_claims @ s else s)"
  using assms(2)
proof (cases rule: probe_cases)
  case memory
  then show ?thesis using assms(1) by (simp add: held_def hold_def)
next
  case (host h w1)
  have "held w1 = held (allocated h w)" using keepsD [OF held_init host(3)] .
  also have "\<dots> = Some (Host_alloc # Request_region # s)"
    using assms(1) by (simp add: allocated_def held_def hold_def)
  finally show ?thesis using claim_irq_run [of p w1 s] host(2) by (auto simp: held_def)
qed (use assms(1) in auto)

definition sample_platform :: platform where
  "sample_platform = \<lparr>has_resource = True, region_free = True, host_memory = Some sample_host,
     irq_error = 0, host_error = -12\<rparr>"

lemma sample_probe_fails: "succeeds (\<lambda>(r, st). r = Error (-12))
    (amiga_a3000_scsi_probe sample_platform sample_kernel None setup_init) (sample_world\<lparr>wd_in := [ASR_INT, 0, 0]\<rparr>)"
  by code_simp

theorem probe_balances_claims_witness:
  "\<exists>st w'. amiga_a3000_scsi_probe sample_platform sample_kernel None setup_init (sample_world\<lparr>wd_in := [ASR_INT, 0, 0]\<rparr>) =
      Inr ((Error (-12), st), w') \<and> held w' = Some []"
proof -
  let ?w = "sample_world\<lparr>wd_in := [ASR_INT, 0, 0]\<rparr>"
  obtain st w' where m: "amiga_a3000_scsi_probe sample_platform sample_kernel None setup_init ?w = Inr ((Error (-12), st), w')"
    using succeedsD [OF sample_probe_fails] by auto
  have "held ?w = Some []" by (simp add: held_def sample_world_def)
  from probe_balances_claims [OF this m] m show ?thesis by auto
qed

text \<open>
  C32. Removal undoes a successful probe: it masks the adapter's interrupts first and then releases
  the four claims in reverse order.
\<close>
theorem remove_releases_claims:
  assumes "held w = Some (all_claims @ s)"
  shows "\<exists>w' evs. amiga_a3000_scsi_remove w = Inr ((), w') \<and> held w' = Some s \<and>
    events w' = events w @ Wr_reg CNTR 0 # evs \<and> hdata w' = hdata w"
  using assms
  by (auto simp: amiga_a3000_scsi_remove_def wr_reg_def run_simps held_def hold_def all_claims_def)

theorem remove_releases_claims_witness:
  "\<exists>w'. amiga_a3000_scsi_remove (sample_world\<lparr>events := [Request_region, Host_alloc, Request_irq, Add_host]\<rparr>) = Inr ((), w') \<and>
     held w' = Some []"
proof -
  have "held (sample_world\<lparr>events := [Request_region, Host_alloc, Request_irq, Add_host]\<rparr>) = Some (all_claims @ [])"
    by (simp add: held_def hold_def all_claims_def)
  from remove_releases_claims [OF this] show ?thesis by blast
qed

text \<open>
  C13. A bound adapter is ready. When probing succeeds, the driver is idle and unlocked with a
  well-formed period table, no command has been completed by it, the SDMAC's interrupts are enabled,
  and the state is one a run of the driver can start from.
\<close>
theorem probe_makes_ready:
  assumes "amiga_a3000_scsi_probe p k strs st w = Inr ((Bound, st'), w')"
    and "\<And>s. strs = Some s \<Longrightarrow> NUL \<notin> set s" and "length (setup_args st) = MAX_SETUP_ARGS"
    and "\<And>h. host_memory p = Some h \<Longrightarrow> wf_host h \<and> \<not> lock h" and "filter is_done (events w) = []"
  shows "driver_run k (addr_of w) [] w' \<and> ready (hdata w') \<and>
    (\<exists>pre. events w' = pre @ [Wr_reg CNTR (ucast (CNTR_PDMD OR CNTR_INTEN)), Add_host, Scan_host])"
  using assms(1)
proof (cases rule: probe_cases)
  case (host h w1)
  have m: "meets (\<lambda>u. u = allocated h w) (wd33c93_init (a3000_env k) strs (uint WD33C93_FS_12_15) st)
    (\<lambda>_. around (allocated h w) (\<lambda>h. ready h \<and> (fast h \<noteq> 0 \<longrightarrow> chip h = C_WD33C93B)))"
    by (rule init_ready) (use assms(2-4) host(1) in \<open>auto simp: allocated_def wf_host_def\<close>)
  have a: "around (allocated h w) ready w1"
    using meetsD(2) [OF m refl host(3)] by (simp add: around_def)
  note f = claim_irq_frame [OF host(2)]
  have addr: "addr_of w' = addr_of w"
    using a f by (simp add: around_def outside_def allocated_def addr_of_def fun_eq_iff)
  have "REP (addr_of w') (idle_view []) w'"
    by (rule REP_idle) (use a f assms(5) in \<open>simp_all add: around_def outside_def allocated_def ready_def quiet_def shape_def wf_host_def\<close>)
  then show ?thesis
    using a f addr claim_irq_run [of p w1 "[]"] host(2) by (auto simp: around_def intro: run_start)
qed auto

lemma sample_probe: "succeeds (\<lambda>(r, st). r = Bound)
    (amiga_a3000_scsi_probe (sample_platform\<lparr>host_error := 0\<rparr>) sample_kernel None setup_init) (sample_world\<lparr>wd_in := [ASR_INT, 0, 0]\<rparr>)"
  by code_simp

theorem probe_makes_ready_witness:
  "\<exists>st w'. amiga_a3000_scsi_probe (sample_platform\<lparr>host_error := 0\<rparr>) sample_kernel None setup_init
      (sample_world\<lparr>wd_in := [ASR_INT, 0, 0]\<rparr>) = Inr ((Bound, st), w') \<and> ready (hdata w')"
proof -
  obtain st w' where m: "amiga_a3000_scsi_probe (sample_platform\<lparr>host_error := 0\<rparr>) sample_kernel None setup_init
      (sample_world\<lparr>wd_in := [ASR_INT, 0, 0]\<rparr>) = Inr ((Bound, st), w')"
    using succeedsD [OF sample_probe] by auto
  from probe_makes_ready [OF m] m show ?thesis
    by (auto simp: sample_platform_def setup_init_def wf_host_def sample_host_def sample_table_def sample_world_def)
qed

text \<open>
  C39. The failure path leaves the device interrupting: when the host cannot be added, the interrupt
  line is released, but the last write to the control register is the one that enabled the
  interrupts.
\<close>
theorem probe_leaves_interrupts_on:
  assumes "irq_error p = 0" and "host_error p \<noteq> 0"
    and "amiga_a3000_scsi_probe p k strs st w = Inr ((r, st'), w')" and "has_resource p" and "region_free p"
    and "host_memory p \<noteq> None"
  shows "\<exists>pre. events w' = pre @ [Wr_reg CNTR (ucast (CNTR_PDMD OR CNTR_INTEN)), Free_irq, Host_put, Release_region]"
proof -
  obtain w1 where "claim_irq p w1 = Inr (r, w')"
    using assms by (auto simp: amiga_a3000_scsi_probe_def run_simps split: sum.splits)
  then show ?thesis using assms(1,2) by (auto simp: claim_irq_def run_simps fail_runs wr_reg_def)
qed

theorem probe_leaves_interrupts_on_witness:
  "\<exists>st w' pre. amiga_a3000_scsi_probe sample_platform sample_kernel None setup_init (sample_world\<lparr>wd_in := [ASR_INT, 0, 0]\<rparr>) =
      Inr ((Error (-12), st), w') \<and> events w' = pre @ [Wr_reg CNTR 12, Free_irq, Host_put, Release_region]"
proof -
  obtain st w' where m: "amiga_a3000_scsi_probe sample_platform sample_kernel None setup_init
      (sample_world\<lparr>wd_in := [ASR_INT, 0, 0]\<rparr>) = Inr ((Error (-12), st), w')"
    using succeedsD [OF sample_probe_fails] by auto
  from probe_leaves_interrupts_on [OF _ _ m] m show ?thesis by (auto simp: sample_platform_def)
qed

end
