(* ===== verification/Progress.thy ===== *)
theory Progress
  imports IntrFaults Driver DmaProps
begin

text \<open>
  Progress of the driver. Between interrupts it never leaves the bus idle while a waiting command
  could be started, and when the chip reports that a command is done, the handler gets through,
  completes it and starts the next.
\<close>

section \<open>What cannot wait\<close>

text \<open>
  \<open>never m\<close>: the program does not wait for the hardware; \<open>asks m\<close>: it waits only for the allocator.
\<close>

definition never :: "'a drv \<Rightarrow> bool" where
  "never m \<longleftrightarrow> (\<forall>w. m w \<noteq> Inl Waiting)"

definition asks :: "'a drv \<Rightarrow> bool" where
  "asks m \<longleftrightarrow> (\<forall>w. m w = Inl Waiting \<longrightarrow> alloc_in w = [])"

named_theorems nv "programs that do not wait"

lemma never_basic [nv]: "never (ret x)" "never (modify f)" "never (mod_hd g)" "never (mod_cmd c h)" "never (mod_dev d j)"
  "never (emit ev)" "never (write_wd33c93 r v)" "never (write_wd33c93_cmd v)" "never (write_wd33c93_count n)"
  "never (arr_get xs i)" "never (arr_ok xs i)" "never spin_lock" "never spin_unlock"
  by (simp_all add: never_def run_simps write_wd33c93_count_def wr_SASR_def wr_SCMD_def spin_lock_def spin_unlock_def)

lemma never_throw [nv]: "f \<noteq> Waiting \<Longrightarrow> never (throw f)"
  by (simp add: never_def throw_run)

lemma never_bnd [nv]: "never m \<Longrightarrow> (\<And>x. never (f x)) \<Longrightarrow> never (bnd m f)"
  by (auto simp: never_def bnd_run split: sum.splits)

lemma never_thn [nv]: "never m \<Longrightarrow> never n \<Longrightarrow> never (thn m n)"
  by (auto simp: never_def thn_run split: sum.splits)

lemma never_peek [nv]: "(\<And>w. never (f w)) \<Longrightarrow> never (peek f)"
  by (simp add: never_def peek_run)

lemma never_if [nv]: "never m \<Longrightarrow> never n \<Longrightarrow> never (if b then m else n)" "never m \<Longrightarrow> never (when_do b m)"
  by (simp_all add: never_def when_do_run)

lemma never_cases [nv]: "never m \<Longrightarrow> (\<And>c. never (f c)) \<Longrightarrow> never (case p of None \<Rightarrow> m | Some c \<Rightarrow> f c)"
  "(\<And>c. never (f c)) \<Longrightarrow> never (deref p f)" "(\<And>a b. never (g a b)) \<Longrightarrow> never (case q of (a, b) \<Rightarrow> g a b)"
  by (cases p; simp add: deref_def never_throw)+ (cases q; simp)

lemma never_lift [nv]: "r \<noteq> Inl Waiting \<Longrightarrow> never (lift r)"
  by (auto simp: never_def lift_run split: sum.splits)

lemma never_seqs [nv]: "never (seqs [])" "never m \<Longrightarrow> never (seqs ms) \<Longrightarrow> never (seqs (m # ms))"
  by (simp_all add: nv)

lemma never_lun_mask [nv]: "lun_mask l \<noteq> Inl Waiting"
  by (simp add: lun_mask_def)

lemma never_cdb [nv]: "never (write_wd33c93_cdb n bytes)"
proof -
  have "never (wr_cdb_from n i bytes)" for n i
    by (induction n i bytes rule: wr_cdb_from.induct) (auto intro!: nv simp: wr_SCMD_def)
  then show ?thesis unfolding write_wd33c93_cdb_def wr_SASR_def by (intro nv)
qed

lemma walk_fault: "walk stop nxt prev cur = Some y \<Longrightarrow> \<forall>f. y = Inl f \<longrightarrow> (\<exists>x. stop x = Inl f)"
  by (rule walk.raw_induct [where P = "\<lambda>stop nxt prev cur y. \<forall>f. y = Inl f \<longrightarrow> (\<exists>x. stop x = Inl f)"])
    (auto split: option.splits sum.splits if_splits)

lemma search_never: "(\<And>x. stop x \<noteq> Inl Waiting) \<Longrightarrow> search stop nxt p \<noteq> Inl Waiting"
  unfolding search_def using walk_fault by (fastforce split: option.splits)

lemma never_queue [nv]: "search (other_target w c) nxt p \<noteq> Inl Waiting" "search (runnable w) nxt p \<noteq> Inl Waiting"
  by (rule search_never, simp add: other_target_def, rule search_never, simp add: runnable_def lun_mask_def)

lemma never_mark [nv]: "never (mark_queue p)"
  unfolding mark_queue_def by (intro nv) simp

text \<open>What comes before the DMA is prepared does not use up the allocator's answers either.\<close>

named_theorems ak "programs that ask nothing of the allocator"

lemmas [ak] = keeps_ret keeps_throw keeps_bnd keeps_thn keeps_peek keeps_if keeps_when
  keeps_arr_get keeps_arr_ok keeps_lift keeps_deref keeps_option keeps_prod keeps_seqs_Nil keeps_seqs_Cons

lemma alloc_ops [ak]: "keeps alloc_in (mod_hd f)" "keeps alloc_in (mod_cmd c g)" "keeps alloc_in (write_wd33c93 r v)"
  "keeps alloc_in (write_wd33c93_cmd v)" "keeps alloc_in (read_wd33c93 r)" "keeps alloc_in (emit ev)"
  by (auto simp: keeps_def run_simps split: list.splits)

lemma alloc_unlock: "keeps alloc_in spin_unlock"
  by (auto simp: keeps_def spin_unlock_def run_simps split: if_splits)

lemma alloc_cdb [ak]: "keeps alloc_in (write_wd33c93_cdb n bytes)"
proof -
  have "keeps alloc_in (wr_cdb_from n i bytes)" for n i
    by (induction n i bytes rule: wr_cdb_from.induct) (auto intro!: ak simp: wr_SCMD_def)
  then show ?thesis unfolding write_wd33c93_cdb_def wr_SASR_def by (intro ak)
qed

lemma alloc_mark [ak]: "keeps alloc_in (mark_queue p)"
  unfolding mark_queue_def by (intro ak keeps_modify) simp

lemma alloc_unlink [ak]: "keeps alloc_in (modify (unlink_q u q c))"
  by (cases q; rule keeps_modify; simp add: unlink_q_def)

lemma asks_thn: "never m \<Longrightarrow> keeps alloc_in m \<Longrightarrow> asks n \<Longrightarrow> asks (thn m n)"
  unfolding asks_def never_def keeps_def thn_run by (fastforce split: sum.splits)

lemma asks_bnd: "asks m \<Longrightarrow> (\<And>x. never (f x)) \<Longrightarrow> asks (bnd m f)"
  by (auto simp: asks_def never_def bnd_run split: sum.splits)

lemma asks_never: "never m \<Longrightarrow> asks m"
  by (simp add: asks_def never_def)

lemma asks_peek: "(\<And>w. asks (f w)) \<Longrightarrow> asks (peek f)"
  by (simp add: asks_def peek_run)

lemma asks_if: "asks m \<Longrightarrow> asks n \<Longrightarrow> asks (if b then m else n)"
  by simp

lemma asks_setup: "asks (a3000_dma_setup k c d)"
  by (auto simp: asks_def a3000_dma_setup_def get_bounce_def kmalloc.simps start_dma_def memcpy_def wr_reg_def Let_def
      run_simps split: if_splits sum.splits option.splits list.splits)

lemma asks_thn_never: "asks m \<Longrightarrow> never n \<Longrightarrow> asks (thn m n)"
  unfolding thn_def by (rule asks_bnd)

lemma asks_get: "(\<And>x. asks (f x)) \<Longrightarrow> asks (bnd (arr_get xs i) f)"
  by (simp add: asks_def bnd_run arr_get_run)

lemma asks_start: "asks (start_cmd (a3000_env k) c)"
proof -
  have p: "asks (prepare_data (a3000_env k) c)"
    unfolding prepare_data_def seqs.simps a3000_env_sel by (intro asks_peek asks_if asks_bnd [OF asks_setup] asks_never nv)
  have x: "asks (start_select_xfer (a3000_env k) c)"
    unfolding start_select_xfer_def seqs.simps
    by (intro asks_peek asks_thn asks_thn_never [OF p] nv ak)
  have s: "never (start_select c)" unfolding start_select_def by (intro nv)
  show ?thesis
    unfolding start_cmd_def seqs.simps count_cmd_def write_destination_def disconnect_policy_def allow_disconnect_def
      select_registers_def set_busy_def
    by (intro asks_thn asks_thn_never asks_peek asks_get asks_if asks_never [OF s] x nv ak)
qed


lemma asks_execute: "asks (wd33c93_execute (a3000_env k))"
proof -
  have skip: "asks (bnd (lift r) f)" if "r \<noteq> Inl Waiting" "\<And>x. asks (f x)" for r :: "fault + 'a" and f :: "'a \<Rightarrow> unit drv"
    using that by (auto simp: asks_def bnd_run lift_run split: sum.splits)
  have opt: "asks (case p of None \<Rightarrow> ret () | Some c \<Rightarrow> f c)" if "\<And>c. asks (f c)" for p :: "cptr option" and f :: "cptr \<Rightarrow> unit drv"
    using that by (cases p) (simp_all add: asks_never nv)
  have prod: "asks (case q of (a, b) \<Rightarrow> g a b)" if "\<And>a b. asks (g a b)" for q :: "cptr option \<times> cptr option" and g :: "cptr option \<Rightarrow> cptr option \<Rightarrow> unit drv"
    using that by (cases q) simp
  show ?thesis
    unfolding wd33c93_execute_def
    by (intro asks_peek asks_if skip prod opt asks_thn asks_start asks_never nv ak)
qed

section \<open>The completion calls a piece of the driver makes\<close>

definition dones :: "world \<Rightarrow> event list" where
  "dones w = filter is_done (events w)"

named_theorems dk "programs that complete nothing"

lemmas [dk] = keeps_ret keeps_throw keeps_bnd keeps_thn keeps_peek keeps_if keeps_when
  keeps_arr_get keeps_arr_ok keeps_lift keeps_deref keeps_option keeps_prod keeps_seqs_Nil keeps_seqs_Cons

lemma dones_io: "keeps io_free m \<Longrightarrow> keeps dones m"
  unfolding keeps_def dones_def using io_free_eqD(7) by metis

lemma dones_dma: "keeps dma_free m \<Longrightarrow> keeps dones m"
  unfolding keeps_def dones_def using dma_free_hd(6) by metis

lemmas [dk] = dones_io [OF keeps_write_wd33c93] dones_io [OF keeps_write_cmd] dones_io [OF keeps_write_count]
  dones_io [OF keeps_read_wd33c93] dones_io [OF keeps_write_cdb] dones_io [OF keeps_read_count]
  dones_dma [OF a3000_setup_free] dones_dma [OF a3000_stop_free]

lemma dones_ops [dk]: "keeps dones (mod_hd f)" "keeps dones (mod_cmd c g)" "keeps dones spin_unlock" "keeps dones spin_lock"
  by (auto simp: keeps_def run_simps dones_def spin_lock_def spin_unlock_def split: if_splits)

lemma dones_unlink [dk]: "keeps dones (modify (unlink_q u q c))"
  by (cases q; rule keeps_modify; simp add: unlink_q_def dones_def)

lemma dones_mark [dk]: "keeps dones (mark_queue p)"
  unfolding mark_queue_def by (intro dk keeps_modify) (simp add: dones_def)

lemma dones_execute [dk]: "keeps dones (wd33c93_execute (a3000_env k))"
  unfolding wd33c93_execute_def start_cmd_def count_cmd_def write_destination_def disconnect_policy_def
    allow_disconnect_def select_registers_def set_busy_def start_select_def start_select_xfer_def prepare_data_def a3000_env_sel
  by (intro dk)

lemma dones_emit: "hoare (\<lambda>w. dones w = d) (emit (Scsi_done c)) (\<lambda>_ w. dones w = d @ [Scsi_done c])"
  by (simp add: hoare_def emit_run dones_def)

lemma dones_skip: "keeps dones m \<Longrightarrow> hoare (\<lambda>w. dones w = d) n Q \<Longrightarrow> hoare (\<lambda>w. dones w = d) (thn m n) Q"
  by (rule hoare_thn [OF keeps_hoare [where P = "\<lambda>x. x = d"]])

section \<open>Without negotiation\<close>

text \<open>
  When no target needs negotiating, every command is started by select-and-transfer, and stays
  connected until it is done.
\<close>

definition obs :: "world \<Rightarrow> u8 \<times> sync_status list \<times> cptr option \<times> cptr option" where
  "obs w = (level2 (hdata w), sync_stat (hdata w), selecting (hdata w), disconnected_Q (hdata w))"

fun steady :: "u8 \<times> sync_status list \<times> cptr option \<times> cptr option \<Rightarrow> bool" where
  "steady (l, ss, sel, dis) \<longleftrightarrow> l \<noteq> L2_NONE \<and> SS_UNSET \<notin> set ss \<and> sel = None \<and> dis = None"

named_theorems ok_obs "programs that keep the level, the negotiations and what is selected or disconnected"

lemmas [ok_obs] = keeps_ret keeps_throw keeps_bnd keeps_thn keeps_peek keeps_if keeps_when
  keeps_arr_get keeps_arr_ok keeps_lift keeps_deref keeps_option keeps_prod keeps_seqs_Nil keeps_seqs_Cons

lemma obs_io: "keeps io_free m \<Longrightarrow> keeps obs m"
proof -
  have "obs (io_free w) = obs w" for w by (simp add: obs_def)
  then show "keeps io_free m \<Longrightarrow> keeps obs m" unfolding keeps_def by metis
qed

lemma obs_dma: "keeps dma_free m \<Longrightarrow> keeps obs m"
proof -
  have "obs (dma_free w) = obs w" for w by (simp add: obs_def dma_free_def io_free_def)
  then show "keeps dma_free m \<Longrightarrow> keeps obs m" unfolding keeps_def by metis
qed

lemmas [ok_obs] = obs_io [OF keeps_write_wd33c93] obs_io [OF keeps_write_cmd] obs_io [OF keeps_write_count]
  obs_io [OF keeps_write_cdb] obs_dma [OF a3000_setup_free]
  obs_dma [OF a3000_stop_free] obs_io [OF keeps_read_count]

lemma obs_hd [ok_obs]: "(\<And>h. level2 (f h) = level2 h) \<Longrightarrow> (\<And>h. sync_stat (f h) = sync_stat h) \<Longrightarrow>
    (\<And>h. selecting (f h) = selecting h) \<Longrightarrow> (\<And>h. disconnected_Q (f h) = disconnected_Q h) \<Longrightarrow> keeps obs (mod_hd f)"
  by (rule keeps_mod_hd) (simp add: obs_def)

lemma obs_ops [ok_obs]: "keeps obs (mod_cmd c g)" "keeps obs spin_unlock" "keeps obs (emit ev)"
  by (auto simp: keeps_def run_simps obs_def spin_unlock_def split: if_splits)

lemma obs_unlink [ok_obs]: "keeps obs (modify (unlink_q input_Q_update q c))"
  by (cases q; rule keeps_modify; simp add: unlink_q_def obs_def)

lemma obs_mark [ok_obs]: "keeps obs (mark_queue p)"
  unfolding mark_queue_def by (intro ok_obs keeps_modify) (simp add: obs_def)

definition stays :: "'a drv \<Rightarrow> bool" where
  "stays m \<longleftrightarrow> hoare (\<lambda>w. steady (obs w)) m (\<lambda>_ w. steady (obs w))"

lemma stays_keeps: "keeps obs m \<Longrightarrow> stays m"
  unfolding stays_def by (rule keeps_hoare [where P = steady])

lemma stays_thn: "stays m \<Longrightarrow> stays n \<Longrightarrow> stays (thn m n)"
  unfolding stays_def by (rule hoare_thn)

lemma stays_start: "stays (start_cmd (a3000_env k) c)"
proof -
  have k: "keeps obs (start_select_xfer (a3000_env k) c)"
    unfolding start_select_xfer_def prepare_data_def a3000_env_sel by (intro ok_obs; simp)
  have x: "stays (peek (\<lambda>w. bnd (arr_get (sync_stat (hdata w)) (id_of w c)) (\<lambda>s.
      if level2 (hdata w) = L2_NONE \<or> s = SS_UNSET then start_select c else start_select_xfer (a3000_env k) c)))"
    unfolding stays_def
  proof (rule hoareI)
    fix w x w'
    assume s: "steady (obs w)"
      and m: "peek (\<lambda>w. bnd (arr_get (sync_stat (hdata w)) (id_of w c)) (\<lambda>s.
        if level2 (hdata w) = L2_NONE \<or> s = SS_UNSET then start_select c else start_select_xfer (a3000_env k) c)) w = Inr (x, w')"
    have "start_select_xfer (a3000_env k) c w = Inr (x, w')"
      using m s by (auto simp: run_simps obs_def dest: nth_mem split: if_splits)
    then show "steady (obs w')" using keepsD [OF k] s by simp
  qed
  show ?thesis
    unfolding start_cmd_def seqs.simps count_cmd_def write_destination_def disconnect_policy_def allow_disconnect_def
      select_registers_def set_busy_def
    by (intro stays_thn x; rule stays_keeps; (intro ok_obs; simp))
qed

lemma stays_execute: "stays (wd33c93_execute (a3000_env k))"
  unfolding stays_def
proof (rule hoareI)
  fix w x w' assume s: "steady (obs w)" and m: "wd33c93_execute (a3000_env k) w = Inr (x, w')"
  have u: "stays (thn (modify (unlink_q input_Q_update p c)) (start_cmd (a3000_env k) c))" for p c
    by (intro stays_thn stays_start stays_keeps ok_obs)
  from m have "w' = w \<or> (\<exists>p c. thn (modify (unlink_q input_Q_update p c)) (start_cmd (a3000_env k) c) w = Inr (x, w'))"
    by (auto simp: wd33c93_execute_def peek_run ret_run bnd_run lift_run split: if_splits sum.splits prod.splits option.splits)
  with s show "steady (obs w')" using hoareD [OF u [unfolded stays_def]] by blast
qed

section \<open>A report of completion\<close>

text \<open>The body of the case: what follows once the status byte \<open>st\<close> has been read.\<close>

definition finish :: "env \<Rightarrow> cptr \<Rightarrow> u8 \<Rightarrow> unit drv" where
  "finish e c st = seqs [drop_connected c,
     mod_cmd c (\<lambda>k. if SCp_Status k = ILLEGAL_STATUS_BYTE then k\<lparr>SCp_Status := ucast st\<rparr> else k),
     set_result e c, emit (Scsi_done c), spin_unlock, wd33c93_execute e]"

lemma asks_finish: "asks (finish (a3000_env k) c st)"
  unfolding finish_def drop_connected_def clear_busy_def set_result_def seqs.simps
  by ((rule asks_thn, (intro nv)[1], (intro ak alloc_unlock)[1])+, rule asks_thn_never [OF asks_execute], intro nv)

lemma dones_finish: "hoare (\<lambda>w. dones w = d) (finish (a3000_env k) c st) (\<lambda>_ w. dones w = d @ [Scsi_done c])"
  unfolding finish_def drop_connected_def clear_busy_def set_result_def seqs.simps
  by (intro dones_skip hoare_thn [OF dones_emit] keeps_hoare [where P = "\<lambda>x. x = _"] dk)

text \<open>
  The input of such a report: the chip's status, the unprocessed count if a DMA transfer has to be
  stopped first, and the status byte; a transfer from the device must be flushed.
\<close>

definition reports :: "u8 \<Rightarrow> world \<Rightarrow> bool" where
  "reports st w \<longleftrightarrow> (\<exists>asr cnt rest. bit_on asr ASR_INT \<and> \<not> bit_on asr ASR_BSY \<and>
     wd_in w = asr # CSR_SEL_XFER_DONE # 0x60 # cnt @ st # rest \<and>
     (case dma (hdata w) of
        D_DMA_OFF \<Rightarrow> cnt = []
      | D_DMA_RUNNING \<Rightarrow> length cnt = 3 \<and> (dma_dir (hdata w) = 0 \<or> (\<exists>v \<in> set (istr_in w). flushed v))))"

lemma stop_transfer_run:
  assumes "dma (hdata u) = D_DMA_RUNNING" and "wd_in u = x # y # z # rest"
    and "dma_dir (hdata u) = 0 \<or> (\<exists>v \<in> set (istr_in u). flushed v)"
  shows "\<exists>w1. stop_transfer (a3000_env k) (Some c) u = Inr ((), w1) \<and> wd_in w1 = rest \<and> alloc_in w1 = alloc_in u"
proof -
  have "a3000_dma_stop (Some c) 1 u = Inr ((), stopped (Some c) 1 u)" using assms(3) by (auto simp: stop_run)
  moreover have "wd_in (stopped (Some c) 1 u) = x # y # z # rest" "alloc_in (stopped (Some c) 1 u) = alloc_in u"
    using assms(2) by (simp_all add: stopped_def)
  ultimately show ?thesis using assms(1)
    by (simp add: stop_transfer_def run_simps update_residual_def read_wd33c93_count_def wr_SASR_def rd_SCMD.simps)
qed

lemma report_reaches_finish:
  assumes r: "reports st w" and c: "connected (hdata w) = Some c" and s: "sane False A xs ys w"
  shows "\<exists>w2. wd33c93_intr (a3000_env k) w = finish (a3000_env k) c st w2 \<and> sane True A xs ys w2 \<and>
    alloc_in w2 = alloc_in w \<and> dones w2 = dones w \<and> obs w2 = obs w"
proof -
  obtain asr cnt rest where i: "bit_on asr ASR_INT" "\<not> bit_on asr ASR_BSY"
      "wd_in w = asr # CSR_SEL_XFER_DONE # 0x60 # cnt @ st # rest"
    and d: "case dma (hdata w) of D_DMA_OFF \<Rightarrow> cnt = []
      | D_DMA_RUNNING \<Rightarrow> length cnt = 3 \<and> (dma_dir (hdata w) = 0 \<or> (\<exists>v \<in> set (istr_in w). flushed v))"
    using r unfolding reports_def by blast
  let ?h = "hdata w" and ?e = "a3000_env k"
  let ?w = "w\<lparr>hdata := ?h\<lparr>lock := True, int_cnt := int_cnt ?h + 1\<rparr>, wd_in := cnt @ st # rest,
      events := events w @ [Rd_SASR asr, Wr_SASR WD_SCSI_STATUS, Rd_SCMD CSR_SEL_XFER_DONE, Wr_SASR WD_COMMAND_PHASE, Rd_SCMD 0x60]\<rparr>"
  have l: "\<not> lock ?h" using s by (simp add: sane_def)
  have 1: "wd33c93_intr ?e w = thn (stop_transfer ?e (Some c)) (intr_sel_xfer_done ?e (Some c) 0x60) ?w"
    using i l c by (simp add: wd33c93_intr_def spin_lock_def run_simps intr_dispatch_def phase_int_def)
  have sw: "sane True A xs ys ?w"
    using s by (auto simp: sane_def arrays_ok_def wf_host_def addr_of_def fun_eq_iff intro: queue_of_frame)
  obtain w1 where w1: "stop_transfer ?e (Some c) ?w = Inr ((), w1)" "wd_in w1 = st # rest" "alloc_in w1 = alloc_in w"
  proof (cases "dma ?h")
    case D_DMA_OFF
    then show thesis using d by (intro that [of ?w]) (simp_all add: stop_transfer_def run_simps)
  next
    case D_DMA_RUNNING
    then obtain x y z where "cnt = [x, y, z]" using d by (auto simp: length_Suc_conv numeral_eq_Suc)
    with D_DMA_RUNNING d show thesis
      using stop_transfer_run [of ?w x y z "st # rest" k c] that by auto
  qed
  have s1: "sane True A xs ys w1" using hoareD [OF sane_keeps [OF a3w.core_stop_transfer] w1(1) sw] .
  have ks: "keeps dones (stop_transfer ?e (Some c))"
    unfolding stop_transfer_def update_residual_def a3000_env_sel seqs.simps by (intro dk)
  have d1: "dones w1 = dones w" using keepsD [OF ks w1(1)] by (simp add: dones_def)
  have ko: "keeps obs (stop_transfer ?e (Some c))"
    unfolding stop_transfer_def update_residual_def a3000_env_sel seqs.simps by (intro ok_obs; simp)
  have o1: "obs w1 = obs w" using keepsD [OF ko w1(1)] by (simp add: obs_def)
  let ?w2 = "w1\<lparr>cmds := (cmds w1)(c := (cmds w1 c)\<lparr>SCp_Message := ucast COMMAND_COMPLETE\<rparr>), wd_in := rest,
      events := events w1 @ [Wr_SASR WD_SOURCE_ID, Wr_SCMD SRCID_ER, Wr_SASR WD_TARGET_LUN, Rd_SCMD st]\<rparr>"
  have "intr_sel_xfer_done ?e (Some c) 0x60 w1 = finish ?e c st ?w2"
    using w1(2) by (simp add: intr_sel_xfer_done_def finish_def run_simps del: seqs.simps)
  then have "wd33c93_intr ?e w = finish ?e c st ?w2" using 1 w1(1) by (simp add: thn_run)
  moreover have "sane True A xs ys ?w2"
    using s1 by (auto simp: sane_def arrays_ok_def wf_host_def addr_of_def fun_eq_iff intro: queue_of_frame)
  moreover have "dones ?w2 = dones w" using d1 by (simp add: dones_def)
  moreover have "obs ?w2 = obs w" using o1 by (simp add: obs_def)
  ultimately show ?thesis using w1(3) by (intro exI [of _ ?w2]) simp
qed

lemma stays_finish: "stays (finish (a3000_env k) c st)"
  unfolding finish_def drop_connected_def clear_busy_def set_result_def seqs.simps
  by (intro stays_thn stays_execute; rule stays_keeps; (intro ok_obs; simp))

lemma report_completes:
  assumes v: "wf_view A v" and w: "REP A v w" and a: "arrays_ok w" and l: "\<not> lock (hdata w)" and al: "alloc_in w \<noteq> []"
    and c: "v_con v = Some c" and rp: "reports st w"
  shows "\<exists>w' v'. wd33c93_intr (a3000_env k) w = Inr ((), w') \<and> dones w' = dones w @ [Scsi_done c] \<and>
    wf_view A v' \<and> REP A v' w' \<and> blocked A v' \<and> account v' = account v \<and> (steady (obs w) \<longrightarrow> steady (obs w'))"
proof -
  have con: "connected (hdata w) = Some c" using w c by (simp add: REP_def R_def)
  have s: "sane False A (v_in v) (v_dis v) w" using REP_sane(1) [OF w v a] l by simp
  have ok: "ok_addr A c" using REP_sane(2) [OF w v a, of c] con by simp
  obtain w2 where w2: "wd33c93_intr (a3000_env k) w = finish (a3000_env k) c st w2" "sane True A (v_in v) (v_dis v) w2"
      "alloc_in w2 = alloc_in w" "dones w2 = dones w" "obs w2 = obs w"
    using report_reaches_finish [OF rp con s] by blast
  have f: "only {Waiting} (sane True A (v_in v) (v_dis v)) (finish (a3000_env k) c st)"
    unfolding finish_def seqs.simps
    by (intro only_last only_unlock_then a3w.only_execute only_skip only_drop_connected only_set_result onl fk ok) simp_all
  obtain w' where w': "finish (a3000_env k) c st w2 = Inr ((), w')"
    using onlyD [OF f _ w2(2)] asks_finish [of k c st] w2(3) al unfolding asks_def
    by (cases "finish (a3000_env k) c st w2") auto
  then have r: "wd33c93_intr (a3000_env k) w = Inr ((), w')" using w2(1) by simp
  obtain asr rest where i: "wd_in w = asr # CSR_SEL_XFER_DONE # rest" using rp unfolding reports_def by blast
  have "calm_resel w" "\<not> resel_pending w" "blocked A v"
    using c by (simp_all add: calm_resel_def resel_pending_def i blocked_def)
  then obtain v' where "(c_step A)\<^sup>*\<^sup>* v v'" "wf_view A v'" "REP A v' w'" "blocked A v'"
    using a3k.intr_refines [OF v w _ r] by blast
  moreover have "dones w' = dones w @ [Scsi_done c]" using hoareD [OF dones_finish w' w2(4)] .
  moreover have "steady (obs w) \<longrightarrow> steady (obs w')"
    using hoareD [OF stays_finish [unfolded stays_def] w'] w2(5) by simp
  ultimately show ?thesis using r c_steps_account by metis
qed

section \<open>Draining the queues\<close>

text \<open>An interrupt with which the chip reports that the connected command is done.\<close>

definition answered :: "u8 \<Rightarrow> world \<Rightarrow> world" where
  "answered st w = w\<lparr>
     wd_in := [ASR_INT, CSR_SEL_XFER_DONE, 0x60] @ (if dma (hdata w) = D_DMA_RUNNING then [0, 0, 0] else []) @ [st],
     istr_in := [ISTR_FE_FLG], alloc_in := [0]\<rparr>"

definition served :: "kernel \<Rightarrow> u8 \<Rightarrow> unit drv" where
  "served k st = thn (modify (answered st)) (wd33c93_intr (a3000_env k))"

lemma answered_reports: "reports st (answered st w)"
  unfolding reports_def
  by (intro exI [of _ ASR_INT] exI [of _ "if dma (hdata w) = D_DMA_RUNNING then [0, 0, 0] else []"] exI [of _ "[]"])
    (cases "dma (hdata w)"; simp add: answered_def bit_on_def)

lemma answered_frame: "hdata (answered st w) = hdata w" "cmds (answered st w) = cmds w" "qcore (answered st w) = qcore w"
  "dones (answered st w) = dones w" "obs (answered st w) = obs w" "arrays_ok (answered st w) = arrays_ok w"
  by (simp_all add: answered_def qcore_def dones_def obs_def arrays_ok_def)

lemma served_all:
  assumes "wf_view A v" and "REP A v w" and "blocked A v" and "arrays_ok w" and "\<not> lock (hdata w)"
    and "steady (obs w)"
  shows "\<exists>w' ds. seqs (replicate (length (active v)) (served k st)) w = Inr ((), w') \<and>
    REP A (idle_view (v_done v @ ds)) w' \<and> mset ds = mset (active v)"
  using assms
proof (induction "length (active v)" arbitrary: v w)
  case 0
  then have a: "active v = []" by simp
  then have "v = idle_view (v_done v)"
    by (cases v; cases "v_sel v"; cases "v_con v") (auto simp: active_def outstanding_def idle_view_def)
  with 0(3) a show ?case by (intro exI [of _ w] exI [of _ "[]"]) (simp add: ret_run)
next
  case (Suc n)
  let ?w = "answered st w"
  have e: "v_sel v = None" "v_dis v = []"
    using Suc.prems(2,6) by (cases "v_dis v"; auto simp: REP_def R_def obs_def queue_of_def)+
  obtain c where c: "v_con v = Some c"
    using Suc.hyps(2) Suc.prems(3) e by (cases "v_con v") (auto simp: blocked_def active_def outstanding_def)
  have f: "REP A v ?w" "arrays_ok ?w" "\<not> lock (hdata ?w)" "alloc_in ?w \<noteq> []"
    using REP_qcore [OF answered_frame(3) Suc.prems(2)] Suc.prems(4,5) by (simp_all add: answered_frame) (simp add: answered_def)
  obtain w1 v1 where r: "wd33c93_intr (a3000_env k) ?w = Inr ((), w1)" "dones w1 = dones w @ [Scsi_done c]"
      "wf_view A v1" "REP A v1 w1" "blocked A v1" "account v1 = account v" "steady (obs w1)"
    using report_completes [where k = k, OF Suc.prems(1) f c answered_reports] Suc.prems(6)
    unfolding answered_frame by blast
  have "map Scsi_done (v_done v1) = map Scsi_done (v_done v @ [c])"
    using r(2,4) Suc.prems(2) by (simp add: REP_def R_def dones_def)
  moreover have "inj Scsi_done" by (simp add: inj_def)
  ultimately have d: "v_done v1 = v_done v @ [c]" by (simp only: inj_map_eq_map)
  then have m: "mset (active v1) + {#c#} = mset (active v)" using r(6) by (simp add: account_def)
  have "size (mset (active v1) + {#c#}) = size (mset (active v))" by (simp only: m)
  then have n: "n = length (active v1)" using Suc.hyps(2) by simp
  have g: "\<not> lock (hdata w1) \<and> arrays_ok w1"
    by (rule a3w.intr_releases [OF f(3,2) r(1)])
  then obtain w' ds where w': "seqs (replicate n (served k st)) w1 = Inr ((), w')"
      "REP A (idle_view (v_done v1 @ ds)) w'" "mset ds = mset (active v1)"
    using Suc.hyps(1) [OF n r(3-5) _ _ r(7)] n by auto
  have "served k st w = Inr ((), w1)" using r(1) by (simp add: served_def run_simps)
  then have "seqs (replicate (length (active v)) (served k st)) w = Inr ((), w')"
    using w'(1) Suc.hyps(2) [symmetric] by (simp add: thn_run)
  moreover have "mset (c # ds) = mset (active v)" using w'(3) m by simp
  ultimately show ?case using w'(2) d by (intro exI [of _ w'] exI [of _ "c # ds"]) simp
qed

section \<open>Runs without lost selections\<close>

text \<open>As \<open>driver_run\<close>, with reselections only while nothing is being selected or connected.\<close>

definition quiet_resel :: "world \<Rightarrow> bool" where
  "quiet_resel w \<longleftrightarrow> (resel_pending w \<longrightarrow> connected (hdata w) = None \<and> selecting (hdata w) = None)"

inductive quiet_run :: "kernel \<Rightarrow> (cptr \<Rightarrow> nat \<times> nat) \<Rightarrow> cptr list \<Rightarrow> world \<Rightarrow> bool" for k A where
  quiet_start: "REP A (idle_view []) w \<Longrightarrow> quiet_run k A [] w"
| quiet_environment: "quiet_run k A g w \<Longrightarrow> qcore w' = qcore w \<Longrightarrow> quiet_run k A g w'"
| quiet_queue: "quiet_run k A g w \<Longrightarrow> ok_addr A c \<Longrightarrow> count_list g c = completions w c \<Longrightarrow>
    wd33c93_queuecommand_lck (a3000_env k) c w = Inr (r, w') \<Longrightarrow> quiet_run k A (c # g) w'"
| quiet_interrupt: "quiet_run k A g w \<Longrightarrow> quiet_resel w \<Longrightarrow> a3000_intr k w = Inr (i, w') \<Longrightarrow> quiet_run k A g w'"
| quiet_abort: "quiet_run k A g w \<Longrightarrow> wd33c93_abort (a3000_env k) c w = Inr (a, w') \<Longrightarrow> quiet_run k A g w'"

lemma quiet_calm: "quiet_resel w \<Longrightarrow> calm_resel w"
  by (auto simp: quiet_resel_def calm_resel_def resel_pending_def split: list.splits)

lemma quiet_cong: "wd_in w' = wd_in w \<Longrightarrow> hdata w' = hdata w \<Longrightarrow> quiet_resel w' = quiet_resel w"
  by (simp add: quiet_resel_def resel_pending_def)

lemma quiet_invariant: "quiet_run k A g w \<Longrightarrow> \<exists>v. wf_view A v \<and> REP A v w \<and> account v = mset g \<and> blocked A v"
proof (induction rule: quiet_run.induct)
  case (quiet_start w)
  then show ?case
    by (intro exI [of _ "idle_view []"])
      (simp add: wf_idle, simp add: account_def active_def outstanding_def idle_view_def blocked_def)
next
  case (quiet_environment g w w')
  then show ?case using REP_qcore by blast
next
  case (quiet_queue g w c r w')
  then obtain v where v: "wf_view A v" "REP A v w" "account v = mset g" by blast
  have fresh: "c \<notin> set (active v)"
    using account_count [OF v(1,3), of c] quiet_queue.hyps completions_done [OF v(2), of c] by (auto split: if_splits)
  from a3k.queue_refines [OF v(1,2) fresh] quiet_queue.hyps obtain v' where
    s: "exec_spec A (accept (front_of w c) c v) v'" and r: "REP A v' w'" by blast
  note st = exec_spec_steps [OF s]
  have "account v' = add_mset c (mset g)"
    using c_steps_account [OF st] v(3) by (simp add: account_accept)
  moreover have "wf_view A v'" by (rule c_steps_wf [OF st wf_accept [OF v(1) fresh]])
  ultimately show ?case using r exec_spec_blocked [OF s] by auto
next
  case (quiet_interrupt g w i w')
  then obtain v where v: "wf_view A v" "REP A v w" "account v = mset g" "blocked A v" by blast
  from quiet_interrupt.hyps(3) show ?case
  proof (cases rule: a3000_intr_cases)
    case unserviced
    then show ?thesis using v REP_qcore by blast
  next
    case (serviced w1 w2)
    have r1: "REP A v w1" using REP_qcore [OF serviced(2) v(2)] .
    have q: "quiet_resel w1" using quiet_interrupt.hyps(2) quiet_cong [OF serviced(3,4)] by simp
    have "resel_pending w1 \<longrightarrow> v_sel v = None"
      using q REP_queues(2) [OF r1] by (simp add: quiet_resel_def)
    then obtain v' where s: "(c_step A)\<^sup>*\<^sup>* v v'" "wf_view A v'" "REP A v' w2" "blocked A v'"
      using a3k.intr_refines [OF v(1) r1 quiet_calm [OF q] serviced(5)] v(4) by blast
    moreover have "REP A v' w'" using REP_qcore [OF serviced(6) s(3)] .
    ultimately show ?thesis using c_steps_account [OF s(1)] v(3) by auto
  qed
next
  case (quiet_abort g w c a w')
  then obtain v where v: "wf_view A v" "REP A v w" "account v = mset g" "blocked A v" by blast
  from a3k.abort_refines [OF v(1,2) quiet_abort.hyps(2)] v(4) obtain v' where
    "(c_step A)\<^sup>*\<^sup>* v v'" "wf_view A v'" "REP A v' w'" "blocked A v'" by blast
  then show ?case using v(3) c_steps_account by metis
qed

section \<open>Properties\<close>

text \<open>
  C6. A report of completion gets through. When the chip reports that the connected command's
  select-and-transfer is done, the handler returns, without waiting for anything but the flush of
  a DMA transfer; it completes exactly that command, and afterwards no waiting command could be
  started that has not been.
\<close>
theorem completion_report_completes:
  assumes "wf_view A v" and "REP A v w" and "arrays_ok w" and "\<not> lock (hdata w)" and "alloc_in w \<noteq> []"
    and "v_con v = Some c" and "reports st w"
  shows "\<exists>w' v'. wd33c93_intr (a3000_env k) w = Inr ((), w') \<and> dones w' = dones w @ [Scsi_done c] \<and>
    wf_view A v' \<and> REP A v' w' \<and> blocked A v' \<and> account v' = account v"
  using report_completes [OF assms] by blast

text \<open>Command 3 connected, command 4 waiting, no target to be negotiated.\<close>

definition sample_loaded :: world where
  "sample_loaded = sample_world\<lparr>
     hdata := sample_host\<lparr>connected := Some 3, input_Q := Some 4, state := S_RUNNING_LEVEL2, level2 := L2_BASIC,
       busy := [0, 0, 0, 1, 0, 0, 0, 0], sync_stat := replicate 8 SS_SET\<rparr>\<rparr>"

lemma sample_loaded_view:
  "REP (addr_of sample_world) ((idle_view [])\<lparr>v_con := Some 3, v_in := [4]\<rparr>) sample_loaded"
  "wf_view (addr_of sample_world) ((idle_view [])\<lparr>v_con := Some 3, v_in := [4]\<rparr>)"
  by (simp_all add: REP_def R_def idle_view_def outstanding_def active_def queue_of_def
      sample_loaded_def sample_world_def sample_host_def sample_cmd_def addr_of_def
      ok_addr_def wf_view_def fun_eq_iff)
    (auto simp: busy_set_def nth_Cons' less_Suc_eq numeral_eq_Suc)

lemma sample_loaded_arrays: "arrays_ok sample_loaded"
proof -
  have "sx_ok sample_table" by code_simp
  then show ?thesis
    by (simp add: arrays_ok_def wf_host_def sample_loaded_def sample_world_def sample_host_def sample_cmd_def sample_table_def)
qed

theorem completion_report_completes_witness:
  "\<exists>w' v'. wd33c93_intr (a3000_env sample_kernel) (answered 0 sample_loaded) = Inr ((), w') \<and>
     dones w' = [Scsi_done 3] \<and> REP (addr_of sample_world) v' w' \<and> blocked (addr_of sample_world) v'"
proof -
  have "REP (addr_of sample_world) ((idle_view [])\<lparr>v_con := Some 3, v_in := [4]\<rparr>) (answered 0 sample_loaded)"
    by (rule REP_qcore [OF answered_frame(3) sample_loaded_view(1)])
  moreover have "arrays_ok (answered 0 sample_loaded)" "\<not> lock (hdata (answered 0 sample_loaded))"
    "alloc_in (answered 0 sample_loaded) \<noteq> []" "dones (answered 0 sample_loaded) = []"
    using sample_loaded_arrays
    by (simp_all add: answered_frame) (simp_all add: sample_loaded_def sample_world_def sample_host_def answered_def dones_def)
  ultimately show ?thesis
    using completion_report_completes [OF sample_loaded_view(2) _ _ _ _ _ answered_reports, where k = sample_kernel]
    by fastforce
qed

text \<open>
  C7. Every command completes. In a state with level 2 in use, in which every target has negotiated
  (unlike right after initialisation or a host reset), nothing is being selected and nothing is
  disconnected: if the chip answers every started command with a report of completion, the driver
  serves as many interrupts as there are commands without a fault or a wait, and then every command,
  waiting or connected, has been completed exactly once and the driver is idle.
\<close>
theorem queues_drain:
  assumes "wf_view A v" and "REP A v w" and "blocked A v" and "arrays_ok w" and "\<not> lock (hdata w)"
    and "level2 (hdata w) \<noteq> L2_NONE" and "SS_UNSET \<notin> set (sync_stat (hdata w))"
    and "v_sel v = None" and "v_dis v = []"
  shows "\<exists>w' ds. seqs (replicate (length (active v)) (served k st)) w = Inr ((), w') \<and>
    REP A (idle_view (v_done v @ ds)) w' \<and> mset ds = mset (active v)"
proof -
  have "disconnected_Q (hdata w) = None" "selecting (hdata w) = None"
    using assms(2,8,9) by (simp_all add: REP_def R_def queue_of_def)
  then have "steady (obs w)" using assms(6,7) by (simp add: obs_def)
  then show ?thesis by (rule served_all [OF assms(1-5)])
qed

theorem queues_drain_witness:
  "\<exists>w' ds. seqs (replicate 2 (served sample_kernel 0)) sample_loaded = Inr ((), w') \<and>
     REP (addr_of sample_world) (idle_view ds) w' \<and> mset ds = {#3, 4#}"
proof -
  let ?v = "(idle_view [])\<lparr>v_con := Some 3, v_in := [4]\<rparr>"
  have h: "\<not> lock (hdata sample_loaded)" "level2 (hdata sample_loaded) \<noteq> L2_NONE"
    "SS_UNSET \<notin> set (sync_stat (hdata sample_loaded))"
    by (simp_all add: sample_loaded_def sample_host_def)
  have v: "blocked (addr_of sample_world) ?v" "v_sel ?v = None" "v_dis ?v = []" "v_done ?v = []" "active ?v = [4, 3]"
    by (simp_all add: blocked_def idle_view_def active_def outstanding_def)
  have "\<exists>w' ds. seqs (replicate (length (active ?v)) (served sample_kernel 0)) sample_loaded = Inr ((), w') \<and>
     REP (addr_of sample_world) (idle_view (v_done ?v @ ds)) w' \<and> mset ds = mset (active ?v)"
    by (rule queues_drain [OF sample_loaded_view(2,1) v(1) sample_loaded_arrays h v(2,3)])
  then show ?thesis unfolding v(4,5) by (simp add: numeral_eq_Suc add_mset_commute)
qed

text \<open>
  C5. The bus is never left idle over a command that could run. In every run in which reselections
  arrive only while nothing is being selected or connected, whenever no command is being selected
  or connected, the code's own test finds no waiting command runnable; and when nothing is
  disconnected either, no command is waiting at all.
\<close>
theorem never_stalls:
  assumes "quiet_run k A g w" and "selecting (hdata w) = None" and "connected (hdata w) = None"
  shows "\<exists>xs. queue_of input_Q w xs \<and> (\<forall>c \<in> set xs. runnable w c = Inr False) \<and>
    (disconnected_Q (hdata w) = None \<longrightarrow> input_Q (hdata w) = None)"
proof -
  obtain v where v: "wf_view A v" "REP A v w" "blocked A v" using quiet_invariant [OF assms(1)] by blast
  have e: "v_sel v = None" "v_con v = None" using v(2) assms(2,3) by (simp_all add: REP_def R_def)
  have b: "\<forall>c \<in> set (v_in v). A c \<in> A ` set (outstanding v)" using v(3) e by (simp add: blocked_def)
  have "runnable w c = Inr False" if "c \<in> set (v_in v)" for c
    using runnable_ok [of w c] v(2) b that by (auto simp: REP_def R_def ok_addr_of [symmetric] active_def)
  moreover have "v_dis v = []" if "disconnected_Q (hdata w) = None"
    using v(2) that by (cases "v_dis v") (auto simp: REP_def R_def queue_of_def)
  then have "input_Q (hdata w) = None" if "disconnected_Q (hdata w) = None"
    using that b e v(2) by (cases "v_in v") (auto simp: REP_def R_def queue_of_def outstanding_def)
  moreover have "queue_of input_Q w (v_in v)" using v(2) by (simp add: REP_def R_def)
  ultimately show ?thesis by (intro exI [of _ "v_in v"]) simp
qed

text \<open>Command 3 is handed in and started; its selection times out, which completes it.\<close>

definition timed_out :: "world \<Rightarrow> world" where
  "timed_out w = w\<lparr>wd_in := [ASR_INT, CSR_TIMEOUT, 0], istr_in := [ISTR_INT_P OR ISTR_INTS]\<rparr>"

lemma sample_timeouts: "succeeds (\<lambda>r. r)
   (thn (wd33c93_queuecommand_lck (a3000_env sample_kernel) 3)
   (thn (modify timed_out) (thn (a3000_intr sample_kernel)
   (peek (\<lambda>w. ret (selecting (hdata w) = None \<and> connected (hdata w) = None \<and> disconnected_Q (hdata w) = None))))))
   sample_world"
  by code_simp

lemma quiet_fresh: "quiet_run k A g w \<Longrightarrow> c \<notin> set g \<Longrightarrow> count_list g c = completions w c"
proof -
  assume "quiet_run k A g w" and "c \<notin> set g"
  then obtain v where v: "wf_view A v" "REP A v w" "account v = mset g" using quiet_invariant by blast
  have "count_list g c = 0" using \<open>c \<notin> set g\<close> by (simp add: count_list_0_iff)
  then show ?thesis using account_count [OF v(1,3), of c] completions_done [OF v(2), of c] by simp
qed

lemma quiet_timed_out:
  assumes "quiet_run k A g w" and "a3000_intr k (timed_out w) = Inr (i, w')"
  shows "quiet_run k A g w'"
proof (rule quiet_interrupt [OF _ _ assms(2)])
  show "quiet_run k A g (timed_out w)"
    by (rule quiet_environment [OF assms(1)]) (simp add: timed_out_def qcore_def)
qed (simp add: quiet_resel_def resel_pending_def timed_out_def)

theorem never_stalls_witness:
  "\<exists>w. quiet_run sample_kernel (addr_of sample_world) [3] w \<and> input_Q (hdata w) = None \<and> completions w 3 = 1"
proof -
  let ?run = "quiet_run sample_kernel (addr_of sample_world)"
  obtain r w1 i w2 where q: "wd33c93_queuecommand_lck (a3000_env sample_kernel) 3 sample_world = Inr (r, w1)"
    and i: "a3000_intr sample_kernel (timed_out w1) = Inr (i, w2)"
    and e: "selecting (hdata w2) = None" "connected (hdata w2) = None" "disconnected_Q (hdata w2) = None"
    using succeedsD [OF sample_timeouts] by (auto simp: modify_run peek_run ret_run elim!: thn_InrE)
  have s: "?run [] sample_world" by (rule quiet_start [OF sample_idle])
  have "?run [3] w1" by (rule quiet_queue [OF s sample_ok quiet_fresh [OF s] q]) simp_all
  from quiet_timed_out [OF this i] have r: "?run [3] w2" .
  obtain v where v: "wf_view (addr_of sample_world) v" "REP (addr_of sample_world) v w2" "account v = mset [3]"
    using quiet_invariant [OF r] by blast
  have n: "input_Q (hdata w2) = None" using never_stalls [OF r e(1,2)] e(3) by blast
  then have "active v = []" using v(2) e
    by (cases "v_in v"; cases "v_dis v") (auto simp: REP_def R_def queue_of_def active_def outstanding_def)
  then have "completions w2 3 = 1" using account_count [OF v(1,3), of 3] completions_done [OF v(2), of 3] by simp
  with n r show ?thesis by blast
qed

text \<open>
  C20. The exception. In advanced mode and with level 2 not in use, a reselection that wins the bus
  from a command being selected puts that command back on the input queue. When no disconnected
  command has the target and lun the chip reports, the handler then gives up without calling
  \<^verbatim>\<open>wd33c93_execute\<close>: the bus is idle as far as the driver knows, and the command waits at the head
  of the queue although it could run.
\<close>
theorem stray_reselection_stalls:
  assumes "wf_view A v" and "REP A v w" and "v_sel v = Some c" and "level2 (hdata w) \<le> L2_NONE"
    and "wd_in w = asr # CSR_RESEL_AM # phs # src # lun # rest" and "bit_on asr ASR_INT" and "\<not> bit_on asr ASR_BSY"
    and "\<forall>d \<in> set (v_dis v). A d \<noteq> resel_from src lun"
    and "wd33c93_intr (a3000_env k) w = Inr (x, w')"
  shows "selecting (hdata w') = None \<and> connected (hdata w') = None \<and>
    queue_of input_Q w' (c # v_in v) \<and> runnable w' c = Inr True"
proof -
  have con: "v_con v = None" using assms(1,3) by (simp add: wf_view_def)
  from assms(2,9,5-7) con obtain w1 where w1: "REP A v w1" "level2 (hdata w1) = level2 (hdata w)"
      "wd_in w1 = src # lun # rest" "intr_resel (v_con v) asr CSR_RESEL_AM phs w1 = Inr (x, w')"
    by (blast intro: a3k.intr_reselected)
  have "level2 (hdata w1) \<le> L2_NONE" using w1(2) assms(4) by simp
  note r = resel_requeued [OF assms(1) w1(1) assms(3) this w1(3) w1(4) [unfolded con] assms(8)]
  let ?v = "v\<lparr>v_sel := None, v_in := c # v_in v\<rparr>"
  have ra: "R A ?v (A ` set (outstanding ?v)) w'" and "ok_addr A c" using r by (auto simp: REP_def active_def)
  moreover have "A c \<notin> A ` set (outstanding ?v)"
    using assms(1,3) con by (auto simp: wf_view_def outstanding_def)
  ultimately show ?thesis using a3k.runnable_view [OF ra \<open>ok_addr A c\<close>] con by (simp add: R_def)
qed

text \<open>Command 3 being selected, level 2 not in use, while target 4 reselects and only target 5 has a command.\<close>

definition sample_stray_resel :: world where
  "sample_stray_resel = sample_world\<lparr>
     hdata := sample_host\<lparr>selecting := Some 3, disconnected_Q := Some 5, state := S_SELECTING, level2 := L2_NONE,
       busy := [0, 0, 0, 1, 0, 1, 0, 0]\<rparr>,
     wd_in := [ASR_INT, CSR_RESEL_AM, 0, 4, 0]\<rparr>"

lemma sample_stray_resel_view:
  "REP (addr_of sample_world) ((idle_view [])\<lparr>v_sel := Some 3, v_dis := [5]\<rparr>) sample_stray_resel"
  "wf_view (addr_of sample_world) ((idle_view [])\<lparr>v_sel := Some 3, v_dis := [5]\<rparr>)"
  by (simp_all add: REP_def R_def idle_view_def outstanding_def active_def queue_of_def
      sample_stray_resel_def sample_world_def sample_host_def sample_cmd_def addr_of_def
      ok_addr_def wf_view_def fun_eq_iff)
    (auto simp: busy_set_def nth_Cons' less_Suc_eq numeral_eq_Suc)

lemma sample_stray_resel_runs: "succeeds (\<lambda>_. True) (wd33c93_intr (a3000_env sample_kernel)) sample_stray_resel"
  by code_simp

theorem stray_reselection_stalls_witness:
  "\<exists>w'. wd33c93_intr (a3000_env sample_kernel) sample_stray_resel = Inr ((), w') \<and>
     selecting (hdata w') = None \<and> connected (hdata w') = None \<and> queue_of input_Q w' [3] \<and> runnable w' 3 = Inr True"
proof -
  obtain w' where m: "wd33c93_intr (a3000_env sample_kernel) sample_stray_resel = Inr ((), w')"
    using succeedsD [OF sample_stray_resel_runs] by auto
  have "level2 (hdata sample_stray_resel) \<le> L2_NONE" "wd_in sample_stray_resel = ASR_INT # CSR_RESEL_AM # 0 # 4 # 0 # []"
    "bit_on ASR_INT ASR_INT" "\<not> bit_on ASR_INT ASR_BSY"
    by (simp_all add: sample_stray_resel_def sample_host_def bit_on_def)
  note r = stray_reselection_stalls [OF sample_stray_resel_view(2,1) _ this _ m, of 3]
  have "addr_of sample_world 5 \<noteq> resel_from 4 0" by (simp add: addr_of_def sample_world_def sample_cmd_def)
  with r m show ?thesis by (simp add: idle_view_def)
qed

end
