(* ===== verification/ProcShow.thy ===== *)
theory ProcShow
  imports Sample
begin

text \<open>
  The readable part of the proc interface (\<^verbatim>\<open>wd33c93_show_info\<close> of \<^verbatim>\<open>wd33c93.c\<close>). The text put
  into the \<^verbatim>\<open>seq_file\<close> is the value returned; the formats of \<^verbatim>\<open>seq_printf\<close> that are used are
  written out.
\<close>

section \<open>Formats\<close>

text \<open>The digits of a number, least significant first.\<close>

fun digits_rev :: "nat \<Rightarrow> nat \<Rightarrow> nat list" where
  "digits_rev b n = (if b < 2 \<or> n < b then [n] else n mod b # digits_rev b (n div b))"

declare digits_rev.simps [simp del]

definition digit_char :: "nat \<Rightarrow> char" where
  "digit_char d = (if d < 10 then char_of (48 + d) else char_of (87 + d))"

definition fmt_nat :: "nat \<Rightarrow> nat \<Rightarrow> string" where
  "fmt_nat b n = map digit_char (rev (digits_rev b n))"

text \<open>\<open>%02x\<close>, \<open>%d\<close> and \<open>%ld\<close> (a 32-bit \<^verbatim>\<open>long\<close>), \<open>%llu\<close>.\<close>

definition fmt_02x :: "u8 \<Rightarrow> string" where
  "fmt_02x x = (let s = fmt_nat 16 (unat x) in replicate (2 - length s) CHR ''0'' @ s)"

definition fmt_d :: "int \<Rightarrow> string" where
  "fmt_d i = (if i < 0 then CHR ''-'' # fmt_nat 10 (nat (- i)) else fmt_nat 10 (nat i))"

definition fmt_ld :: "u32 \<Rightarrow> string" where
  "fmt_ld x = fmt_d (sint x)"

definition fmt_llu :: "u64 \<Rightarrow> string" where
  "fmt_llu x = fmt_nat 10 (unat x)"

definition NL :: char where "NL = CHR 0x0A"
definition TAB :: char where "TAB = CHR 0x09"

section \<open>The sections of the output\<close>

definition WD33C93_VERSION :: string where "WD33C93_VERSION = ''1.26++''"
definition WD33C93_DATE :: string where "WD33C93_DATE = ''10/Feb/2007''"

definition show_version :: string where
  "show_version = NL # ''Version '' @ WD33C93_VERSION @ '' - '' @ WD33C93_DATE @ ''.''"

text \<open>\<open>for (x = 0; x < 7; x++) seq_printf(m, "\\t..", xs[x])\<close>; the arrays have eight elements.\<close>

definition columns :: "('a \<Rightarrow> string) \<Rightarrow> 'a list \<Rightarrow> string" where
  "columns f xs = concat (map (\<lambda>x. TAB # f (xs ! x)) [0..<7])"

fun sync_code :: "sync_status \<Rightarrow> u8" where
  "sync_code SS_UNSET = 0"
| "sync_code SS_FIRST = 1"
| "sync_code SS_WAITING = 2"
| "sync_code SS_SET = 3"

definition show_settings :: "hostdata \<Rightarrow> string" where
  "show_settings h =
     NL # ''clock_freq='' @ fmt_02x (clock_freq h) @ '' no_sync='' @ fmt_02x (no_sync h) @
     '' no_dma='' @ fmt_d (uint (no_dma h)) @ '' dma_mode='' @ fmt_02x (dma_mode h) @
     '' fast='' @ fmt_d (uint (fast h)) @
     NL # ''sync_xfer[] =       '' @ columns fmt_02x (sync_xfer h) @
     NL # ''sync_stat[] =       '' @ columns (fmt_02x \<circ> sync_code) (sync_stat h)"

definition show_statistics :: "hostdata \<Rightarrow> string" where
  "show_statistics h =
     NL # ''commands issued:    '' @ columns fmt_ld (cmd_cnt h) @
     NL # ''disconnects allowed:'' @ columns fmt_ld (disc_allowed_cnt h) @
     NL # ''disconnects done:   '' @ columns fmt_ld (disc_done_cnt h) @
     NL # ''interrupts: '' @ fmt_ld (int_cnt h) @ '', DATA_PHASE ints: '' @ fmt_ld (dma_cnt h) @
     '' DMA, '' @ fmt_ld (pio_cnt h) @ '' PIO''"

text \<open>\<open>seq_printf(m, " %d:%llu(%02x)", id, lun, cmnd[0])\<close>.\<close>

definition entry :: "world \<Rightarrow> cptr \<Rightarrow> string" where
  "entry w c = '' '' @ fmt_d (sint (dev_id (dev_of w c))) @ '':'' @ fmt_llu (dev_lun (dev_of w c)) @
     ''('' @ fmt_02x (cmnd (cmds w c) ! 0) @ '')''"

definition show_cmd :: "world \<Rightarrow> cptr \<Rightarrow> fault + string" where
  "show_cmd w c = (if cmnd (cmds w c) = [] then Inl Out_of_bounds else Inr (entry w c))"

text \<open>\<open>while (cmd) { ...; cmd = cmd->host_scribble; }\<close>\<close>

partial_function (option) show_queue :: "world \<Rightarrow> cptr option \<Rightarrow> string \<Rightarrow> (fault + string) option" where
  "show_queue w p out =
     (case p of
        None \<Rightarrow> Some (Inr out)
      | Some c \<Rightarrow> (case show_cmd w c of
            Inl f \<Rightarrow> Some (Inl f)
          | Inr s \<Rightarrow> show_queue w (next_of w c) (out @ s)))"

declare show_queue.simps [code]

definition queue_text :: "world \<Rightarrow> cptr option \<Rightarrow> string drv" where
  "queue_text w p = lift (case show_queue w p [] of None \<Rightarrow> Inl Diverges | Some r \<Rightarrow> r)"

text \<open>A part of the output that is made only when its bit of \<open>hd->proc\<close> is set.\<close>

definition part :: "u8 \<Rightarrow> string drv \<Rightarrow> string drv" where
  "part flag m = peek (\<lambda>w. if bit_on (proc (hdata w)) flag then m else ret [])"

definition append_text :: "string drv \<Rightarrow> string drv \<Rightarrow> string drv" where
  "append_text m n = bnd m (\<lambda>s. bnd n (\<lambda>t. ret (s @ t)))"

definition show_connected :: "string drv" where
  "show_connected = peek (\<lambda>w. bnd (case connected (hdata w) of None \<Rightarrow> ret [] | Some c \<Rightarrow> lift (show_cmd w c))
     (\<lambda>s. ret (NL # ''connected:     '' @ s)))"

definition show_input :: "string drv" where
  "show_input = peek (\<lambda>w. bnd (queue_text w (input_Q (hdata w))) (\<lambda>s. ret (NL # ''input_Q:       '' @ s)))"

definition show_disconnected :: "string drv" where
  "show_disconnected = peek (\<lambda>w. bnd (queue_text w (disconnected_Q (hdata w))) (\<lambda>s. ret (NL # ''disconnected_Q:'' @ s)))"

definition wd33c93_show_info :: "string drv" where
  "wd33c93_show_info =
     thn spin_lock
    (bnd (append_text (part PR_VERSION (ret show_version))
         (append_text (part PR_INFO (peek (\<lambda>w. ret (show_settings (hdata w)))))
         (append_text (part PR_STATISTICS (peek (\<lambda>w. ret (show_statistics (hdata w)))))
         (append_text (part PR_CONNECTED show_connected)
         (append_text (part PR_INPUTQ show_input)
         (append_text (part PR_DISCQ show_disconnected)
                      (ret [NL])))))))
    (\<lambda>out. thn spin_unlock (ret out)))"

section \<open>What is printed\<close>

lemma show_queue_linked:
  assumes "linked (next_of w) p xs" and "\<And>c. c \<in> set xs \<Longrightarrow> cmnd (cmds w c) \<noteq> []"
  shows "show_queue w p out = Some (Inr (out @ concat (map (entry w) xs)))"
  using assms
proof (induction xs arbitrary: p out)
  case Nil
  then show ?case by (subst show_queue.simps) simp
next
  case (Cons x xs)
  then show ?case by (subst show_queue.simps) (simp add: show_cmd_def)
qed

lemma part_run: "part b m w = (if bit_on (proc (hdata w)) b then m w else Inr ([], w))"
  by (simp add: part_def run_simps)

lemma append_text_run: "append_text m n w = (case m w of Inl e \<Rightarrow> Inl e
   | Inr (s, w1) \<Rightarrow> (case n w1 of Inl e \<Rightarrow> Inl e | Inr (t, w2) \<Rightarrow> Inr (s @ t, w2)))"
  by (simp add: append_text_def run_simps split: sum.splits)

text \<open>The text of a state whose queues hold the given commands.\<close>

definition report :: "world \<Rightarrow> cview \<Rightarrow> string" where
  "report w v = (let h = hdata w; on = (\<lambda>b s. if bit_on (proc h) b then s else []); list = concat \<circ> map (entry w)
     in on PR_VERSION show_version @ on PR_INFO (show_settings h) @ on PR_STATISTICS (show_statistics h) @
        on PR_CONNECTED (NL # ''connected:     '' @ list (opt_list (v_con v))) @
        on PR_INPUTQ (NL # ''input_Q:       '' @ list (v_in v)) @
        on PR_DISCQ (NL # ''disconnected_Q:'' @ list (v_dis v)) @ [NL])"

section \<open>Property\<close>

text \<open>
  C31. Reading the proc file returns and changes nothing: the lock is taken and given back, and what
  is printed is, for the parts chosen by \<^verbatim>\<open>proc\<close>, the settings, the statistics, the connected
  command, the waiting commands and the disconnected commands in the order of their queues.
\<close>
theorem show_info_reports:
  assumes "REP A v w" and "\<not> lock (hdata w)" and "\<And>c. c \<in> set (active v) \<Longrightarrow> cmnd (cmds w c) \<noteq> []"
  shows "wd33c93_show_info w = Inr (report w v, w)"
proof -
  let ?w = "w\<lparr>hdata := (hdata w)\<lparr>lock := True\<rparr>\<rparr>"
  have e: "entry ?w = entry w" by (simp add: entry_def fun_eq_iff)
  have q: "show_queue ?w (input_Q (hdata w)) [] = Some (Inr (concat (map (entry w) (v_in v))))"
    "show_queue ?w (disconnected_Q (hdata w)) [] = Some (Inr (concat (map (entry w) (v_dis v))))"
    using assms(1,3) show_queue_linked [of ?w "input_Q (hdata w)" "v_in v" "[]"]
      show_queue_linked [of ?w "disconnected_Q (hdata w)" "v_dis v" "[]"]
    by (simp_all add: e REP_def R_def queue_of_def active_def outstanding_def)
  have c: "connected (hdata w) = v_con v" "\<And>c. v_con v = Some c \<Longrightarrow> show_cmd ?w c = Inr (entry w c)"
    using assms(1,3) by (auto simp: REP_def R_def active_def outstanding_def show_cmd_def e)
  have s: "show_settings (hdata ?w) = show_settings (hdata w)" "show_statistics (hdata ?w) = show_statistics (hdata w)"
    by (simp_all add: show_settings_def show_statistics_def)
  show ?thesis
    using assms(2)
    by (cases "v_con v") (simp_all add: wd33c93_show_info_def spin_lock_def spin_unlock_def append_text_run part_run
      show_connected_def show_input_def show_disconnected_def queue_text_def run_simps report_def Let_def q c s [simplified])
qed

text \<open>Command 3 waiting, with the version and the input queue to be shown.\<close>

theorem show_info_reports_witness:
  "wd33c93_show_info (sample_waiting\<lparr>hdata := (hdata sample_waiting)\<lparr>proc := 0x11\<rparr>\<rparr>) =
     Inr (NL # ''Version 1.26++ - 10/Feb/2007.'' @ NL # ''input_Q:        3:0(28)'' @ [NL],
          sample_waiting\<lparr>hdata := (hdata sample_waiting)\<lparr>proc := 0x11\<rparr>\<rparr>)"
proof -
  let ?w = "sample_waiting\<lparr>hdata := (hdata sample_waiting)\<lparr>proc := 0x11\<rparr>\<rparr>" and ?v = "(idle_view [])\<lparr>v_in := [3]\<rparr>"
  have "REP (addr_of sample_world) ?v ?w"
    using sample_waiting_view(1) by (simp add: REP_def R_def queue_of_def addr_of_def fun_eq_iff)
  moreover have "\<not> lock (hdata ?w)" "\<And>c. cmnd (cmds ?w c) \<noteq> []"
    by (simp_all add: sample_waiting_def push_q_def sample_world_def sample_host_def sample_cmd_def)
  ultimately have "wd33c93_show_info ?w = Inr (report ?w ?v, ?w)" by (intro show_info_reports)
  moreover have "report ?w ?v = NL # ''Version 1.26++ - 10/Feb/2007.'' @ NL # ''input_Q:        3:0(28)'' @ [NL]"
    by code_simp
  ultimately show ?thesis by simp
qed

end
