(* ===== verification/Spec2Isabelle.thy ===== *)
theory Spec2Isabelle
  imports Driver DataPath DmaProps IntrFaults Probe Progress ProcShow
begin

text \<open>
  Verification of the Amiga 3000 SCSI driver kept with ReSDMAC.

  \<^bold>\<open>The program.\<close> ReSDMAC replaces the SDMAC, the DMA controller of the Amiga 3000's SCSI bus. The C
  sources below \<^verbatim>\<open>src/Docs/LinuxCodeA3000SCSI\<close> are the Linux driver of that hardware and say how it is
  meant to be used: \<^verbatim>\<open>wd33c93.c\<close> and \<^verbatim>\<open>wd33c93.h\<close> drive the WD33C93 SCSI chip (queues of commands,
  selection, the interrupt handler with its message and data phases, abort and reset, configuration),
  \<^verbatim>\<open>a3000.c\<close> and \<^verbatim>\<open>a3000.h\<close> drive the SDMAC (DMA set-up and stop, the interrupt line, probing and
  removal). The two meet in two function pointers, \<^verbatim>\<open>dma_setup\<close> and \<^verbatim>\<open>dma_stop\<close>.

  \<^bold>\<open>The model.\<close> \<open>Prelude\<close> has the programs of the model: functions from a state to a fault or a result
  and a new state. The faults are what the C program can run into: an index out of bounds, a NULL
  dereference, a lock taken or released in the wrong state, a loop that does not end (\<open>Diverges\<close>,
  \<open>Hang\<close>), and \<open>Waiting\<close> for an answer that is not there. \<open>WdDefs\<close> has the constants of the headers;
  \<open>WdTypes\<close> the structures (\<open>hostdata\<close>, \<open>scsi_cmnd\<close>, \<open>scsi_device\<close>), the log of \<open>event\<close>s, and \<open>world\<close>.
  What the chip, the SDMAC's status register and the allocator will answer are input lists of the
  world, so a theorem about all worlds is one about every behaviour of the hardware. The operations
  follow the sources, one theory per part:
  \<^item> \<open>WdBus\<close>: register access (\<^verbatim>\<open>read_wd33c93\<close>, \<^verbatim>\<open>write_wd33c93_count\<close>, \<dots>);
  \<^item> \<open>WdSync\<close>: synchronous transfer parameters (\<^verbatim>\<open>calc_sync_xfer\<close>, \<^verbatim>\<open>calc_sync_msg\<close>, \<^verbatim>\<open>set_clk_freq\<close>, \<dots>);
  \<^item> \<open>CmdQueue\<close>, \<open>WdExec\<close>: the linked lists, \<^verbatim>\<open>wd33c93_queuecommand_lck\<close> and \<^verbatim>\<open>wd33c93_execute\<close>;
  \<^item> \<open>WdTransfer\<close>: \<^verbatim>\<open>transfer_pio\<close> and \<^verbatim>\<open>transfer_bytes\<close>;
  \<^item> \<open>WdIntr\<close>: \<^verbatim>\<open>wd33c93_intr\<close>, one definition per case of its \<^verbatim>\<open>switch\<close>;
  \<^item> \<open>WdControl\<close>: \<^verbatim>\<open>reset_wd33c93\<close>, \<^verbatim>\<open>wd33c93_host_reset\<close>, \<^verbatim>\<open>wd33c93_abort\<close>;
  \<^item> \<open>WdSetup\<close>: \<^verbatim>\<open>wd33c93_setup\<close>, \<^verbatim>\<open>check_setup_args\<close>, \<^verbatim>\<open>wd33c93_init\<close>, \<^verbatim>\<open>wd33c93_write_info\<close>;
  \<^item> \<open>ProcShow\<close>: \<^verbatim>\<open>wd33c93_show_info\<close>, with the text it prints;
  \<^item> \<open>A3000\<close>: \<^verbatim>\<open>dma_setup\<close>, \<^verbatim>\<open>dma_stop\<close>, \<^verbatim>\<open>a3000_intr\<close>, \<^verbatim>\<open>amiga_a3000_scsi_probe\<close>,
    \<^verbatim>\<open>amiga_a3000_scsi_remove\<close>.

  \<^bold>\<open>The abstract specification.\<close> \<open>CmdLife\<close> describes the life of commands: a view holds the waiting,
  selected, connected, disconnected and completed commands, \<open>c_step\<close> has the moves, \<open>wf_view\<close> the
  invariant, and \<open>REP\<close> relates the driver's pointers, lists, busy map and completion log to a view.
  \<open>ExecLife\<close>, \<open>IntrLife\<close> and \<open>Lifecycle\<close> prove that each entry point of the driver refines it.

  \<^bold>\<open>The interfaces.\<close> \<open>queue_field\<close> (\<open>CmdQueue\<close>) is a queue's head pointer with its update, interpreted for
  both queues. \<open>dma_host\<close> (\<open>ExecLife\<close>) is what the chip driver relies on of the two DMA operations,
  \<open>dma_waits\<close> (\<open>FaultFree\<close>) adds that they can fail only by waiting; both are interpreted on the
  operations of \<open>A3000\<close>.

  \<^bold>\<open>What is proved.\<close>
  \<^item> \<open>Driver\<close>: in runs of commands, interrupts, aborts and host resets every command is completed
    exactly once or is in one place; the interrupt handler simulates the abstract machine; which
    command is started, where commands are queued, what abort and reset do; and what happens in the
    two reselections that the runs leave out.
  \<^item> \<open>FaultFree\<close>, \<open>IntrFaults\<close>: the faults of the interrupt handler, case by case; the lock is released
    on every path; a target can overflow \<open>incoming_msg\<close>.
  \<^item> \<open>Progress\<close>: a completion report gets through, loaded queues drain, no runnable command waits on an
    idle bus, and the one case in which it does.
  \<^item> \<open>DataPath\<close>, \<open>DmaProps\<close>: the bytes moved by programmed transfers and through the bounce buffer, the
    scatter-gather list, the transfer counter, when DMA starts and stops, and what a stop with
    status 0 leaves behind.
  \<^item> \<open>WdSync\<close>, \<open>Startup\<close>, \<open>Probe\<close>, \<open>ProcShow\<close>: period tables and negotiation; command line, initialisation
    and proc interface; the claims on resources.
  \<open>Sample\<close> holds the concrete worlds the witnesses are evaluated on.

  \<^bold>\<open>Assumptions.\<close> Targets and luns are below 8, as the arrays of the driver require (\<open>ok_addr\<close>). A
  command is handed in again only after it has been completed or dropped. The properties of whole
  runs assume that a reselection is served only in the situations the driver is prepared for
  (\<open>calm_resel\<close>, \<open>quiet_resel\<close>); the properties on reselection show what happens otherwise. Kernel
  services are parameters (\<open>kernel\<close>, \<open>platform\<close>): host codes, address translation, number parsers,
  resource allocation.

  \<^bold>\<open>Bounds and fuel.\<close> Loops over linked lists and over the proc text are \<open>partial_function\<close>s whose
  failure to end is the fault \<open>Diverges\<close>; on the lists of a represented state they end. Loops that poll
  the hardware recurse on the input list and are \<open>Waiting\<close> when it is used up. Loops with a counter
  (the flush in \<^verbatim>\<open>wd33c93_abort\<close>, the wait for the interrupt in a reselection) recurse on the counter of
  the code.

  \<^bold>\<open>Not modelled.\<close> Diagnostic output through \<^verbatim>\<open>printk\<close>; the variants for other machines (SGI, MVME147,
  port-mapped registers), which are configured out; the registration with the platform bus, a macro
  of the kernel; memory barriers. The FPGA logic in Verilog, the boards, generated IP cores and
  documents are not C code; the registers the driver uses of them are the events of the model.
\<close>

end
